theory Spec2Isabelle
  imports Complex_Main
begin

section \<open>Cognitive Echo: the real-time speech orchestrator\<close>

text \<open>
  The development embeds the parts of \<^verbatim>\<open>OpenAIService\<close>, \<^verbatim>\<open>SocketService\<close> and the
  \<^verbatim>\<open>/api/speech\<close> routes that carry the single-flight flag, the bounded conversation
  memory, the turn pipeline, the session counters and the session ownership checks.
  Remote services (Whisper, GPT-4o, DALL-E, the database) are opaque: each call takes its
  outcome from an explicit record of outcomes, so that every way a call can end is a
  branch of the model.
\<close>

type_synonym userId = string
type_synonym sessionId = string

subsection \<open>JavaScript numbers\<close>

text \<open>
  A JavaScript number is a finite value, one of the two infinities, or NaN. Finite values
  are exact rationals here: rounding is not modelled, division by zero and NaN are.
  The divisor zero that the code can produce is \<^verbatim>\<open>end - start\<close> with equal operands,
  which is \<^verbatim>\<open>+0\<close>.
\<close>

datatype jsnum = Num rat | PosInf | NegInf | NaN

fun js_add :: "jsnum \<Rightarrow> jsnum \<Rightarrow> jsnum" where
  "js_add NaN _ = NaN"
| "js_add _ NaN = NaN"
| "js_add PosInf NegInf = NaN"
| "js_add NegInf PosInf = NaN"
| "js_add PosInf _ = PosInf"
| "js_add _ PosInf = PosInf"
| "js_add NegInf _ = NegInf"
| "js_add _ NegInf = NegInf"
| "js_add (Num a) (Num b) = Num (a + b)"

fun js_div :: "jsnum \<Rightarrow> jsnum \<Rightarrow> jsnum" where
  "js_div NaN _ = NaN"
| "js_div _ NaN = NaN"
| "js_div (Num a) (Num b) =
     (if b \<noteq> 0 then Num (a / b)
      else if a = 0 then NaN
      else if 0 < a then PosInf else NegInf)"
| "js_div (Num a) _ = Num 0"
| "js_div PosInf (Num b) = (if 0 \<le> b then PosInf else NegInf)"
| "js_div NegInf (Num b) = (if 0 \<le> b then NegInf else PosInf)"
| "js_div _ _ = NaN"

fun Math_min :: "jsnum \<Rightarrow> jsnum \<Rightarrow> jsnum" where
  "Math_min NaN _ = NaN"
| "Math_min _ NaN = NaN"
| "Math_min NegInf _ = NegInf"
| "Math_min _ NegInf = NegInf"
| "Math_min PosInf y = y"
| "Math_min x PosInf = x"
| "Math_min (Num a) (Num b) = Num (min a b)"

fun Math_max :: "jsnum \<Rightarrow> jsnum \<Rightarrow> jsnum" where
  "Math_max NaN _ = NaN"
| "Math_max _ NaN = NaN"
| "Math_max PosInf _ = PosInf"
| "Math_max _ PosInf = PosInf"
| "Math_max NegInf y = y"
| "Math_max x NegInf = x"
| "Math_max (Num a) (Num b) = Num (max a b)"

text \<open>The claim "the number lies in [0,1]"; NaN and the infinities do not.\<close>

fun in_unit_interval :: "jsnum \<Rightarrow> bool" where
  "in_unit_interval (Num c) = (0 \<le> c \<and> c \<le> 1)"
| "in_unit_interval _ = False"

subsection \<open>OpenAIService: transcription confidence\<close>

text \<open>One entry of Whisper's word-level timing: \<^verbatim>\<open>{word, start, end}\<close>.\<close>

record timed_word =
  w_word :: string
  w_start :: rat
  w_end :: rat

text \<open>
  The body of the \<^verbatim>\<open>reduce\<close> callback of \<^verbatim>\<open>calculateTranscriptionConfidence\<close>:
  \<^verbatim>\<open>Math.min(1, word.word.length * 0.1 / (word.end - word.start))\<close>.
\<close>

definition word_confidence :: "timed_word \<Rightarrow> jsnum" where
  "word_confidence w =
     (let wordLength = w_end w - w_start w;
          expectedLength = of_nat (length (w_word w)) * (1 / 10)
      in Math_min (Num 1) (js_div (Num expectedLength) (Num wordLength)))"

text \<open>
  \<^verbatim>\<open>calculateTranscriptionConfidence(words)\<close>; \<open>None\<close> is an absent (undefined or
  null) word list.
\<close>

definition calculateTranscriptionConfidence :: "timed_word list option \<Rightarrow> jsnum" where
  "calculateTranscriptionConfidence words =
     (case words of
        None \<Rightarrow> Num 0
      | Some ws \<Rightarrow>
          if length ws = 0 then Num 0
          else
            (let avgConfidence =
                   js_div (foldl (\<lambda>sum w. js_add sum (word_confidence w)) (Num 0) ws)
                          (Num (of_nat (length ws)))
             in Math_max (Num 0) (Math_min (Num 1) avgConfidence)))"

text \<open>
  The words on which the estimate is a number: no word is both empty and of zero
  duration (the quotient \<^verbatim>\<open>0 / 0\<close>).
\<close>

definition degenerate_word :: "timed_word \<Rightarrow> bool" where
  "degenerate_word w = (length (w_word w) = 0 \<and> w_end w = w_start w)"

text \<open>
  The per-word ratio in exact arithmetic, capped at 1: expected duration (a tenth of a
  second per character) over observed duration; a zero observed duration with a
  non-empty word gives the cap.
\<close>

definition capped_ratio :: "timed_word \<Rightarrow> rat" where
  "capped_ratio w =
     (if w_end w = w_start w then 1
      else min 1 ((of_nat (length (w_word w)) / 10) / (w_end w - w_start w)))"

definition clamp01 :: "rat \<Rightarrow> rat" where
  "clamp01 x = max 0 (min 1 x)"

subsection \<open>OpenAIService: the conversation context store\<close>

text \<open>
  The parsed GPT-4o reply, before \<^verbatim>\<open>formatAnalysisResponse\<close>: every field may be
  missing.
\<close>

record visualCues =
  vc_suggested :: bool
  vc_concept :: "string option"

record audioHint =
  ah_suggested :: bool
  ah_text :: "string option"

record rawAnalysis =
  ra_intendedMeaning :: "string option"
  ra_confidence :: "rat option"
  ra_wordPredictions :: "string list option"
  ra_assistanceLevel :: "string option"
  ra_visualCues :: "visualCues option"
  ra_audioHint :: "audioHint option"
  ra_emotionalContext :: "string option"
  ra_recommendations :: "string option"

text \<open>A context entry \<^verbatim>\<open>{transcription, analysis, timestamp}\<close>; time is in milliseconds.\<close>

record ContextEntry =
  ce_transcription :: string
  ce_analysis :: rawAnalysis
  ce_timestamp :: int

type_synonym contexts = "userId \<rightharpoonup> ContextEntry list"

text \<open>\<^verbatim>\<open>xs.slice(-n)\<close>: the last \<open>n\<close> elements, all of them when there are fewer.\<close>

definition slice_last :: "nat \<Rightarrow> 'a list \<Rightarrow> 'a list" where
  "slice_last n xs = drop (length xs - n) xs"

text \<open>
  \<^verbatim>\<open>updateConversationContext(userId, data)\<close>. An array is truthy even when empty, so
  \<^verbatim>\<open>get(userId) || []\<close> replaces only a missing entry.
\<close>

definition updateConversationContext ::
  "userId \<Rightarrow> ContextEntry \<Rightarrow> contexts \<Rightarrow> contexts" where
  "updateConversationContext u data ctxs =
     (let context = (case ctxs u of None \<Rightarrow> [] | Some c \<Rightarrow> c) @ [data];
          context' = (if length context > 10 then slice_last 10 context else context)
      in ctxs(u \<mapsto> context'))"

text \<open>
  \<^verbatim>\<open>cleanupContexts()\<close> with the maximum age (milliseconds) and the reading of
  \<^verbatim>\<open>Date.now()\<close> as arguments. Each iteration of the loop reads and writes the entry of
  its own key only, so the loop is the pointwise transformation of the map.
\<close>

definition sweep :: "int \<Rightarrow> int \<Rightarrow> contexts \<Rightarrow> contexts" where
  "sweep maxAge now ctxs =
     (\<lambda>u. case ctxs u of
             None \<Rightarrow> None
           | Some context \<Rightarrow>
               (let filtered = filter (\<lambda>item. now - ce_timestamp item < maxAge) context
                in if length filtered = 0 then None else Some filtered))"

text \<open>The source fixes the maximum age at thirty minutes.\<close>

definition cleanupContexts :: "int \<Rightarrow> contexts \<Rightarrow> contexts" where
  "cleanupContexts now ctxs = sweep (30 * 60 * 1000) now ctxs"

text \<open>
  The store over time: appends stamp the entry with the current clock (\<^verbatim>\<open>new Date()\<close>),
  sweeps read the clock (\<^verbatim>\<open>Date.now()\<close>), and the clock never runs backwards.
\<close>

record ctx_state =
  clock :: int
  store :: contexts

datatype ctx_event =
    Append userId string rawAnalysis
  | Sweep int
  | Tick nat

fun ctx_step :: "ctx_state \<Rightarrow> ctx_event \<Rightarrow> ctx_state" where
  "ctx_step s (Append u text a) =
     s\<lparr>store := updateConversationContext u
          \<lparr>ce_transcription = text, ce_analysis = a, ce_timestamp = clock s\<rparr> (store s)\<rparr>"
| "ctx_step s (Sweep maxAge) = s\<lparr>store := sweep maxAge (clock s) (store s)\<rparr>"
| "ctx_step s (Tick d) = s\<lparr>clock := clock s + int d\<rparr>"

definition ctx_run :: "ctx_state \<Rightarrow> ctx_event list \<Rightarrow> ctx_state" where
  "ctx_run s evs = foldl ctx_step s evs"

definition ctx_init :: "int \<Rightarrow> ctx_state" where
  "ctx_init t0 = \<lparr>clock = t0, store = Map.empty\<rparr>"

subsection \<open>OpenAIService: the remote calls\<close>

text \<open>A JavaScript string is truthy when it is present and not empty.\<close>

definition truthy :: "string option \<Rightarrow> bool" where
  "truthy x = (case x of None \<Rightarrow> False | Some s \<Rightarrow> s \<noteq> [])"

text \<open>\<^verbatim>\<open>x || d\<close> on strings.\<close>

definition or_else :: "string option \<Rightarrow> string \<Rightarrow> string" where
  "or_else x d = (case x of None \<Rightarrow> d | Some s \<Rightarrow> if s \<noteq> [] then s else d)"

text \<open>The result of \<^verbatim>\<open>formatAnalysisResponse\<close>.\<close>

record analysis =
  predictions :: "string list"
  confidence :: rat
  intendedMeaning :: string
  assistanceLevel :: string
  visualAidSuggested :: bool
  visualConcept :: "string option"
  audioHintSuggested :: bool
  audioHintText :: "string option"
  emotionalContext :: string
  recommendations :: string

definition formatAnalysisResponse :: "rawAnalysis \<Rightarrow> analysis" where
  "formatAnalysisResponse a =
     \<lparr>predictions = (case ra_wordPredictions a of None \<Rightarrow> [] | Some ps \<Rightarrow> ps),
      confidence = (case ra_confidence a of None \<Rightarrow> 0 | Some c \<Rightarrow> c),
      intendedMeaning = or_else (ra_intendedMeaning a) [],
      assistanceLevel = or_else (ra_assistanceLevel a) ''low'',
      visualAidSuggested =
        (case ra_visualCues a of None \<Rightarrow> False | Some vc \<Rightarrow> vc_suggested vc),
      visualConcept =
        (case ra_visualCues a of
           None \<Rightarrow> None
         | Some vc \<Rightarrow> if truthy (vc_concept vc) then vc_concept vc else None),
      audioHintSuggested =
        (case ra_audioHint a of None \<Rightarrow> False | Some ah \<Rightarrow> ah_suggested ah),
      audioHintText =
        (case ra_audioHint a of
           None \<Rightarrow> None
         | Some ah \<Rightarrow> if truthy (ah_text ah) then ah_text ah else None),
      emotionalContext = or_else (ra_emotionalContext a) ''neutral'',
      recommendations = or_else (ra_recommendations a) []\<rparr>"

text \<open>Whisper's \<^verbatim>\<open>verbose_json\<close> reply and the result of \<^verbatim>\<open>transcribeAudio\<close>.\<close>

record whisper_response =
  wr_text :: string
  wr_words :: "timed_word list option"
  wr_language :: string
  wr_duration :: rat

record transcription =
  tr_text :: string
  tr_words :: "timed_word list option"
  tr_language :: string
  tr_duration :: rat
  tr_confidence :: jsnum

text \<open>
  How the remote calls of one turn end. \<open>Inl msg\<close> is a call that throws with message
  \<open>msg\<close>; the three clock readings are \<^verbatim>\<open>new Date()\<close> when the context entry is
  built, \<^verbatim>\<open>new Date()\<close> in \<^verbatim>\<open>updateSessionData\<close> and
  \<^verbatim>\<open>Date.now()\<close> in the \<^verbatim>\<open>finally\<close> block.
\<close>

record outcomes =
  whisper :: "string + whisper_response"
  user_lookup_fault :: "string option"
  gpt :: "string + rawAnalysis"
  dalle :: "string + string"
  session_store_fault :: "string option"
  at_analysis :: int
  at_update :: int
  at_complete :: int

text \<open>
  \<^verbatim>\<open>transcribeAudio\<close>: any failure inside the \<^verbatim>\<open>try\<close> is rethrown with the prefix.
\<close>

definition transcribeAudio :: "string + whisper_response \<Rightarrow> string + transcription" where
  "transcribeAudio reply =
     (case reply of
        Inl msg \<Rightarrow> Inl (''Speech transcription failed: '' @ msg)
      | Inr r \<Rightarrow>
          Inr \<lparr>tr_text = wr_text r, tr_words = wr_words r, tr_language = wr_language r,
               tr_duration = wr_duration r,
               tr_confidence = calculateTranscriptionConfidence (wr_words r)\<rparr>)"

text \<open>
  \<^verbatim>\<open>processMultimodalInput\<close>: the request and \<^verbatim>\<open>JSON.parse\<close> are the remote
  outcome; on success the context entry is appended, then the reply is formatted.
\<close>

definition processMultimodalInput ::
  "outcomes \<Rightarrow> transcription \<Rightarrow> userId \<Rightarrow> contexts \<Rightarrow> (string + analysis) \<times> contexts" where
  "processMultimodalInput oc tr u ctxs =
     (case gpt oc of
        Inl msg \<Rightarrow> (Inl (''AI processing failed: '' @ msg), ctxs)
      | Inr a \<Rightarrow>
          (Inr (formatAnalysisResponse a),
           updateConversationContext u
             \<lparr>ce_transcription = tr_text tr, ce_analysis = a,
              ce_timestamp = at_analysis oc\<rparr> ctxs))"

text \<open>\<^verbatim>\<open>generateVisualAid\<close>: the image URL, or the rethrown failure.\<close>

definition generateVisualAid :: "string + string \<Rightarrow> string + string" where
  "generateVisualAid reply =
     (case reply of
        Inl msg \<Rightarrow> Inl (''Visual aid generation failed: '' @ msg)
      | Inr url \<Rightarrow> Inr url)"

subsection \<open>Sessions in the database\<close>

record session =
  s_userId :: userId
  s_startedAt :: int
  s_endedAt :: "int option"
  s_duration :: "int option"
  s_transcript :: string
  s_predictions :: "string list"
  s_completedSentences :: "string list"
  s_successfulPredictions :: int
  s_totalPredictions :: int
  s_confidence :: "rat option"
  s_visualAids :: "string list"
  s_updatedAt :: int

type_synonym sessions = "sessionId \<rightharpoonup> session"

text \<open>The row that \<^verbatim>\<open>prisma.session.create\<close> stores for a new session.\<close>

definition new_session :: "userId \<Rightarrow> int \<Rightarrow> session" where
  "new_session u t =
     \<lparr>s_userId = u, s_startedAt = t, s_endedAt = None, s_duration = None,
      s_transcript = [], s_predictions = [], s_completedSentences = [],
      s_successfulPredictions = 0, s_totalPredictions = 0, s_confidence = None,
      s_visualAids = [], s_updatedAt = t\<rparr>"

text \<open>\<^verbatim>\<open>prisma.session.findFirst({ where: { id, userId } })\<close>.\<close>

definition findFirst :: "sessionId \<Rightarrow> userId \<Rightarrow> sessions \<Rightarrow> session option" where
  "findFirst sid u db =
     (case db sid of
        None \<Rightarrow> None
      | Some s \<Rightarrow> if s_userId s = u then Some s else None)"

subsection \<open>SocketService: state, sockets and events\<close>

datatype event =
    authenticated_ev userId
  | authentication_error
  | error_ev string
  | processing_started int
  | processing_busy
  | transcription_ready string jsnum
  | predictions_ready "string list" rat string string string
  | visual_aid_ready string string
  | audio_hint_ready string string
  | processing_error string
  | processing_complete int
  | session_started sessionId
  | session_ended sessionId
  | session_error string

text \<open>The name under which an event is emitted.\<close>

fun name_of :: "event \<Rightarrow> string" where
  "name_of (authenticated_ev _) = ''authenticated''"
| "name_of authentication_error = ''authentication_error''"
| "name_of (error_ev _) = ''error''"
| "name_of (processing_started _) = ''processing_started''"
| "name_of processing_busy = ''processing_busy''"
| "name_of (transcription_ready _ _) = ''transcription_ready''"
| "name_of (predictions_ready _ _ _ _ _) = ''predictions_ready''"
| "name_of (visual_aid_ready _ _) = ''visual_aid_ready''"
| "name_of (audio_hint_ready _ _) = ''audio_hint_ready''"
| "name_of (processing_error _) = ''processing_error''"
| "name_of (processing_complete _) = ''processing_complete''"
| "name_of (session_started _) = ''session_started''"
| "name_of (session_ended _) = ''session_ended''"
| "name_of (session_error _) = ''session_error''"

text \<open>The awaited calls of the services, in the order they are issued.\<close>

datatype remote =
    Whisper
  | UserLookup
  | GPT
  | DALLE string
  | SessionUpdate sessionId
  | ProgressUpdate userId
  | MemoryGardenArt "string list"
  | MemoryGardenCreate userId

datatype action = Emit nat event | Call remote

text \<open>
  The server: the two maps of \<^verbatim>\<open>SocketService\<close>, the context map of its
  \<^verbatim>\<open>OpenAIService\<close>, the session table, and the log of what has been emitted to which
  socket and which remote calls were issued, oldest first.
\<close>

record server =
  activeConnections :: "userId \<rightharpoonup> nat"
  processingQueue :: "userId \<rightharpoonup> bool"
  conversationContexts :: contexts
  db_sessions :: sessions
  trace :: "action list"

definition init_server :: server where
  "init_server =
     \<lparr>activeConnections = Map.empty, processingQueue = Map.empty,
      conversationContexts = Map.empty, db_sessions = Map.empty, trace = []\<rparr>"

text \<open>
  A socket. \<^verbatim>\<open>socket.userId\<close> and \<^verbatim>\<open>socket.authenticated\<close> are assigned together
  by the \<^verbatim>\<open>authenticate\<close> handler and never reset, so one optional field carries both.
\<close>

record socket =
  sock_id :: nat
  sock_userId :: "userId option"
  sock_sessionId :: "sessionId option"

definition authenticated :: "socket \<Rightarrow> bool" where
  "authenticated sock = (sock_userId sock \<noteq> None)"

definition emit :: "socket \<Rightarrow> event \<Rightarrow> server \<Rightarrow> server" where
  "emit sock e srv = srv\<lparr>trace := trace srv @ [Emit (sock_id sock) e]\<rparr>"

definition call :: "remote \<Rightarrow> server \<Rightarrow> server" where
  "call r srv = srv\<lparr>trace := trace srv @ [Call r]\<rparr>"

text \<open>The events emitted to a socket, and their names, read off a log.\<close>

fun emitted :: "action list \<Rightarrow> event list" where
  "emitted [] = []"
| "emitted (Emit k e # as) = e # emitted as"
| "emitted (Call r # as) = emitted as"

definition names :: "action list \<Rightarrow> string list" where
  "names as = map name_of (emitted as)"

record speech_data =
  audioData :: string
  videoFrame :: "string option"
  timestamp :: int

subsection \<open>SocketService: the turn pipeline\<close>

text \<open>
  \<^verbatim>\<open>updateSessionData\<close>: \<^verbatim>\<open>prisma.session.update({ where: { id } })\<close> selects the
  row by its id alone and throws when there is none.
\<close>

definition updateSessionData ::
  "outcomes \<Rightarrow> sessionId \<Rightarrow> transcription \<Rightarrow> analysis \<Rightarrow> sessions \<Rightarrow> string + sessions" where
  "updateSessionData oc sid tr an db =
     (case session_store_fault oc of
        Some msg \<Rightarrow> Inl msg
      | None \<Rightarrow>
          (case db sid of
             None \<Rightarrow> Inl ''Record to update not found.''
           | Some s \<Rightarrow>
               Inr (db(sid \<mapsto> s\<lparr>s_transcript := tr_text tr,
                                   s_predictions := predictions an,
                                   s_confidence := Some (confidence an),
                                   s_updatedAt := at_update oc\<rparr>))))"

text \<open>Step 3: the visual aid, whose failure is caught and logged.\<close>

definition visual_aid_stage :: "outcomes \<Rightarrow> socket \<Rightarrow> analysis \<Rightarrow> server \<Rightarrow> server" where
  "visual_aid_stage oc sock an srv =
     (if visualAidSuggested an \<and> truthy (visualConcept an) then
        (let concept = the (visualConcept an);
             srv1 = call (DALLE concept) srv
         in case generateVisualAid (dalle oc) of
              Inl msg \<Rightarrow> srv1
            | Inr url \<Rightarrow> emit sock (visual_aid_ready url concept) srv1)
      else srv)"

text \<open>Step 4: the audio hint, a local emission.\<close>

definition audio_hint_stage :: "socket \<Rightarrow> analysis \<Rightarrow> server \<Rightarrow> server" where
  "audio_hint_stage sock an srv =
     (if audioHintSuggested an \<and> truthy (audioHintText an) then
        emit sock
          (audio_hint_ready (the (audioHintText an))
             (if assistanceLevel an = ''high'' then ''immediate'' else ''gentle'')) srv
      else srv)"

text \<open>The session update at the end of the \<^verbatim>\<open>try\<close> block.\<close>

definition session_update_stage ::
  "outcomes \<Rightarrow> socket \<Rightarrow> transcription \<Rightarrow> analysis \<Rightarrow> server \<Rightarrow> string option \<times> server" where
  "session_update_stage oc sock tr an srv =
     (case sock_sessionId sock of
        None \<Rightarrow> (None, srv)
      | Some sid \<Rightarrow>
          (let srv1 = call (SessionUpdate sid) srv
           in case updateSessionData oc sid tr an (db_sessions srv1) of
                Inl msg \<Rightarrow> (Some msg, srv1)
              | Inr db \<Rightarrow> (None, srv1\<lparr>db_sessions := db\<rparr>)))"

text \<open>Steps 3 and 4 and the session update, once the predictions have been sent.\<close>

definition assist_stages ::
  "outcomes \<Rightarrow> socket \<Rightarrow> transcription \<Rightarrow> analysis \<Rightarrow> server \<Rightarrow> string option \<times> server" where
  "assist_stages oc sock tr an srv =
     session_update_stage oc sock tr an
       (audio_hint_stage sock an (visual_aid_stage oc sock an srv))"

text \<open>Step 2 and what follows it, once the transcription is there.\<close>

definition analysis_stage ::
  "outcomes \<Rightarrow> socket \<Rightarrow> userId \<Rightarrow> transcription \<Rightarrow> server \<Rightarrow> string option \<times> server" where
  "analysis_stage oc sock u tr srv =
     (let srv1 = call UserLookup srv
      in case user_lookup_fault oc of
           Some msg \<Rightarrow> (Some msg, srv1)
         | None \<Rightarrow>
             (let srv2 = call GPT srv1
              in case processMultimodalInput oc tr u (conversationContexts srv2) of
                   (Inl msg, ctxs) \<Rightarrow> (Some msg, srv2)
                 | (Inr an, ctxs) \<Rightarrow>
                     assist_stages oc sock tr an
                       (emit sock
                          (predictions_ready (predictions an) (confidence an)
                             (intendedMeaning an) (assistanceLevel an)
                             (emotionalContext an))
                          (srv2\<lparr>conversationContexts := ctxs\<rparr>))))"

text \<open>
  The \<^verbatim>\<open>try\<close> block of \<^verbatim>\<open>processSpeechInput\<close>. The result is the message of the
  exception that leaves the block, if any, and the state at that point.
\<close>

definition try_block ::
  "outcomes \<Rightarrow> socket \<Rightarrow> userId \<Rightarrow> speech_data \<Rightarrow> server \<Rightarrow> string option \<times> server" where
  "try_block oc sock u data srv =
     (let srv1 = emit sock (processing_started (timestamp data)) srv;
          srv2 = call Whisper srv1
      in case transcribeAudio (whisper oc) of
           Inl msg \<Rightarrow> (Some msg, srv2)
         | Inr tr \<Rightarrow>
             analysis_stage oc sock u tr
               (emit sock (transcription_ready (tr_text tr) (tr_confidence tr)) srv2))"

text \<open>The \<^verbatim>\<open>finally\<close> block: clear the flag, then emit \<^verbatim>\<open>processing_complete\<close>.\<close>

definition finally_block :: "socket \<Rightarrow> userId \<Rightarrow> int \<Rightarrow> server \<Rightarrow> server" where
  "finally_block sock u t srv =
     emit sock (processing_complete t)
       (srv\<lparr>processingQueue := (processingQueue srv)(u := None)\<rparr>)"

text \<open>\<^verbatim>\<open>this.processingQueue.set(userId, true)\<close>.\<close>

definition mark_processing :: "userId \<Rightarrow> server \<Rightarrow> server" where
  "mark_processing u srv = srv\<lparr>processingQueue := (processingQueue srv)(u \<mapsto> True)\<rparr>"

text \<open>\<^verbatim>\<open>this.processingQueue.has(userId)\<close>.\<close>

definition busy :: "userId \<Rightarrow> server \<Rightarrow> bool" where
  "busy u srv = (processingQueue srv u \<noteq> None)"

text \<open>
  \<^verbatim>\<open>processSpeechInput(socket, data)\<close> for a socket of user \<open>u\<close>, run to its end: the
  exception it throws, if any, and the state it leaves.
\<close>

definition processSpeechInput ::
  "outcomes \<Rightarrow> socket \<Rightarrow> userId \<Rightarrow> speech_data \<Rightarrow> server \<Rightarrow> string option \<times> server" where
  "processSpeechInput oc sock u data srv =
     (if busy u srv then (None, emit sock processing_busy srv)
      else
        (case try_block oc sock u data (mark_processing u srv) of
           (thrown, srv') \<Rightarrow> (thrown, finally_block sock u (at_complete oc) srv')))"

text \<open>The \<^verbatim>\<open>process_speech\<close> handler.\<close>

definition on_process_speech :: "outcomes \<Rightarrow> socket \<Rightarrow> speech_data \<Rightarrow> server \<Rightarrow> server" where
  "on_process_speech oc sock data srv =
     (case sock_userId sock of
        None \<Rightarrow> emit sock (error_ev ''Not authenticated'') srv
      | Some u \<Rightarrow>
          (case processSpeechInput oc sock u data srv of
             (Some msg, srv') \<Rightarrow> emit sock (processing_error msg) srv'
           | (None, srv') \<Rightarrow> srv'))"

subsection \<open>SocketService: the other handlers\<close>

text \<open>
  The \<^verbatim>\<open>authenticate\<close> handler; \<open>decoded\<close> is the id in the verified token, \<open>None\<close>
  when \<^verbatim>\<open>jwt.verify\<close> throws.
\<close>

definition on_authenticate :: "userId option \<Rightarrow> socket \<Rightarrow> server \<Rightarrow> socket \<times> server" where
  "on_authenticate decoded sock srv =
     (case decoded of
        None \<Rightarrow> (sock, emit sock authentication_error srv)
      | Some uid \<Rightarrow>
          (sock\<lparr>sock_userId := Some uid\<rparr>,
           emit sock (authenticated_ev uid)
             (srv\<lparr>activeConnections := (activeConnections srv)(uid \<mapsto> sock_id sock)\<rparr>)))"

text \<open>
  The \<^verbatim>\<open>start_session\<close> handler; \<open>created\<close> is the id the database gives the new
  row, or the failure of the insertion.
\<close>

definition on_start_session ::
  "string + sessionId \<Rightarrow> int \<Rightarrow> socket \<Rightarrow> server \<Rightarrow> socket \<times> server" where
  "on_start_session created t sock srv =
     (case sock_userId sock of
        None \<Rightarrow> (sock, emit sock (error_ev ''Not authenticated'') srv)
      | Some u \<Rightarrow>
          (case created of
             Inl msg \<Rightarrow> (sock, emit sock (session_error msg) srv)
           | Inr sid \<Rightarrow>
               (sock\<lparr>sock_sessionId := Some sid\<rparr>,
                emit sock (session_started sid)
                  (srv\<lparr>db_sessions := (db_sessions srv)(sid \<mapsto> new_session u t)\<rparr>))))"

text \<open>
  \<^verbatim>\<open>SocketService.endSession(sessionId)\<close>; \<open>progress_fault\<close> is the failure of
  \<^verbatim>\<open>updateUserProgress\<close>, which this class does not catch.
\<close>

definition endSession ::
  "string option \<Rightarrow> sessionId \<Rightarrow> int \<Rightarrow> server \<Rightarrow> string option \<times> server" where
  "endSession progress_fault sid endedAt srv =
     (case db_sessions srv sid of
        None \<Rightarrow> (Some ''Session not found'', srv)
      | Some s \<Rightarrow>
          (let duration = (endedAt - s_startedAt s) div 1000;
               srv1 = srv\<lparr>db_sessions := (db_sessions srv)
                        (sid \<mapsto> s\<lparr>s_endedAt := Some endedAt, s_duration := Some duration\<rparr>)\<rparr>;
               srv2 = call (ProgressUpdate (s_userId s)) srv1
           in case progress_fault of
                Some msg \<Rightarrow> (Some msg, srv2)
              | None \<Rightarrow> (None, srv2)))"

text \<open>The \<^verbatim>\<open>end_session\<close> handler.\<close>

definition on_end_session ::
  "string option \<Rightarrow> int \<Rightarrow> socket \<Rightarrow> server \<Rightarrow> socket \<times> server" where
  "on_end_session progress_fault endedAt sock srv =
     (if \<not> authenticated sock \<or> sock_sessionId sock = None then (sock, srv)
      else
        (let sid = the (sock_sessionId sock)
         in case endSession progress_fault sid endedAt srv of
              (Some msg, srv') \<Rightarrow> (sock, srv')
            | (None, srv') \<Rightarrow>
                (sock\<lparr>sock_sessionId := None\<rparr>, emit sock (session_ended sid) srv')))"

text \<open>\<^verbatim>\<open>handleDisconnection(socket)\<close>.\<close>

definition handleDisconnection :: "socket \<Rightarrow> server \<Rightarrow> server" where
  "handleDisconnection sock srv =
     (case sock_userId sock of
        None \<Rightarrow> srv
      | Some u \<Rightarrow>
          srv\<lparr>activeConnections := (activeConnections srv)(u := None),
              processingQueue := (processingQueue srv)(u := None)\<rparr>)"

subsection \<open>Feedback\<close>

record feedback =
  fb_sessionId :: "sessionId option"
  predictionAccepted :: bool
  suggestion :: string
  actualIntent :: string

text \<open>
  Both feedback handlers await a read of the session row, compute the new values of the
  two counters from the row as it was read, and then await an update that writes those
  absolute values. What a handler holds between its two awaits is the update it is
  about to issue: the id of the row and the two values.
\<close>

record counter_update =
  cu_sessionId :: sessionId
  cu_successfulPredictions :: int
  cu_totalPredictions :: int

text \<open>\<^verbatim>\<open>newSuccessful\<close> and \<^verbatim>\<open>newTotal\<close>, from the row that was read.\<close>

definition counters_after :: "sessionId \<Rightarrow> bool \<Rightarrow> session \<Rightarrow> counter_update" where
  "counters_after sid accepted session =
     \<lparr>cu_sessionId = sid,
      cu_successfulPredictions =
        s_successfulPredictions session + (if accepted then 1 else 0),
      cu_totalPredictions = s_totalPredictions session + 1\<rparr>"

text \<open>
  \<^verbatim>\<open>SocketService.processFeedback(userId, feedback)\<close> up to the answer of its
  \<^verbatim>\<open>findUnique\<close>: the row is found by id. \<open>None\<close>: the handler issues no update.
\<close>

definition processFeedback_read ::
  "userId \<Rightarrow> feedback \<Rightarrow> sessions \<Rightarrow> counter_update option" where
  "processFeedback_read u fb db =
     (if truthy (fb_sessionId fb) then
        (let sid = the (fb_sessionId fb)
         in case db sid of
              None \<Rightarrow> None
            | Some session \<Rightarrow> Some (counters_after sid (predictionAccepted fb) session))
      else None)"

text \<open>
  \<^verbatim>\<open>POST /api/speech/feedback\<close> up to the answer of its \<^verbatim>\<open>findFirst\<close>: the row
  is found by id and owner.
\<close>

definition feedback_route_read ::
  "userId \<Rightarrow> feedback \<Rightarrow> sessions \<Rightarrow> counter_update option" where
  "feedback_route_read u fb db =
     (if truthy (fb_sessionId fb) then
        (let sid = the (fb_sessionId fb)
         in case findFirst sid u db of
              None \<Rightarrow> None
            | Some session \<Rightarrow> Some (counters_after sid (predictionAccepted fb) session))
      else None)"

text \<open>
  The second await of both handlers:
  \<^verbatim>\<open>prisma.session.update({ where: { id }, data: { successfulPredictions, totalPredictions } })\<close>.
  It writes the two values into the row as it is now; without a row it throws and
  writes nothing.
\<close>

definition session_update_counters :: "counter_update \<Rightarrow> sessions \<Rightarrow> sessions" where
  "session_update_counters cu db =
     (case db (cu_sessionId cu) of
        None \<Rightarrow> db
      | Some row \<Rightarrow>
          db(cu_sessionId cu \<mapsto>
               row\<lparr>s_successfulPredictions := cu_successfulPredictions cu,
                    s_totalPredictions := cu_totalPredictions cu\<rparr>))"

text \<open>
  Feedback handlers are not serialised: between the read and the write of one handler
  the reads and writes of others can happen. The state is the session table and the
  updates that handlers have computed and the database has not yet applied, in the order
  of their reads. \<open>SocketFeedback\<close> and \<open>HttpFeedback\<close> are the moments a handler's read
  is answered; \<open>UpdateApplied i\<close> is the moment the database applies the \<open>i\<close>-th of
  the outstanding updates.
\<close>

record feedback_state =
  fs_db :: sessions
  fs_issued :: "counter_update list"

datatype feedback_event =
    SocketFeedback userId feedback
  | HttpFeedback userId feedback
  | UpdateApplied nat

definition issue :: "counter_update option \<Rightarrow> feedback_state \<Rightarrow> feedback_state" where
  "issue r st =
     (case r of
        None \<Rightarrow> st
      | Some cu \<Rightarrow> st\<lparr>fs_issued := fs_issued st @ [cu]\<rparr>)"

fun feedback_step :: "feedback_state \<Rightarrow> feedback_event \<Rightarrow> feedback_state" where
  "feedback_step st (SocketFeedback u fb) = issue (processFeedback_read u fb (fs_db st)) st"
| "feedback_step st (HttpFeedback u fb) = issue (feedback_route_read u fb (fs_db st)) st"
| "feedback_step st (UpdateApplied i) =
     (if i < length (fs_issued st) then
        \<lparr>fs_db = session_update_counters (fs_issued st ! i) (fs_db st),
         fs_issued = take i (fs_issued st) @ drop (Suc i) (fs_issued st)\<rparr>
      else st)"

definition feedback_run :: "feedback_state \<Rightarrow> feedback_event list \<Rightarrow> feedback_state" where
  "feedback_run st evs = foldl feedback_step st evs"

definition feedback_init :: "sessions \<Rightarrow> feedback_state" where
  "feedback_init db = \<lparr>fs_db = db, fs_issued = []\<rparr>"

subsection \<open>The session routes\<close>

datatype response = Success | NotFound404 string | Failure500 string string

record update_body =
  ub_transcript :: "string option"
  ub_predictions :: "string list option"
  ub_completedSentences :: "string list option"
  ub_confidence :: "rat option"
  ub_visualAids :: "string list option"

text \<open>\<^verbatim>\<open>x || d\<close> on arrays and objects, which are truthy whenever present.\<close>

definition present_or :: "'a option \<Rightarrow> 'a \<Rightarrow> 'a" where
  "present_or x d = (case x of None \<Rightarrow> d | Some v \<Rightarrow> v)"

text \<open>
  \<^verbatim>\<open>PUT /api/speech/session/:sessionId/update\<close> for the authenticated user \<open>u\<close>;
  \<open>fault\<close> is a failure of the database.
\<close>

definition update_route ::
  "string option \<Rightarrow> userId \<Rightarrow> sessionId \<Rightarrow> update_body \<Rightarrow> int \<Rightarrow> sessions \<Rightarrow> response \<times> sessions" where
  "update_route fault u sid body t db =
     (case fault of
        Some msg \<Rightarrow> (Failure500 ''Failed to update session'' msg, db)
      | None \<Rightarrow>
          (case findFirst sid u db of
             None \<Rightarrow> (NotFound404 ''Session not found'', db)
           | Some existing \<Rightarrow>
               (Success,
                db(sid \<mapsto> existing
                   \<lparr>s_transcript := or_else (ub_transcript body) (s_transcript existing),
                    s_predictions := present_or (ub_predictions body) (s_predictions existing),
                    s_completedSentences :=
                      present_or (ub_completedSentences body) (s_completedSentences existing),
                    s_confidence :=
                      (case ub_confidence body of
                         None \<Rightarrow> s_confidence existing
                       | Some c \<Rightarrow> Some c),
                    s_visualAids := present_or (ub_visualAids body) (s_visualAids existing),
                    s_updatedAt := t\<rparr>))))"

text \<open>
  \<^verbatim>\<open>POST /api/speech/session/:sessionId/end\<close>; \<open>sentences\<close> is the request's
  \<^verbatim>\<open>completedSentences\<close> (\<open>None\<close> when the body has none, which the route reads as the
  empty list), \<open>art\<close> the outcome of generating and storing the artwork. The route's own
  \<^verbatim>\<open>updateUserProgress\<close> catches its failures; a failure of the session table
  itself (the route's answer 500) is left out.
\<close>

definition end_route ::
  "string + unit \<Rightarrow> userId \<Rightarrow> sessionId \<Rightarrow> string list option \<Rightarrow> int \<Rightarrow> server \<Rightarrow>
   response \<times> server" where
  "end_route art u sid sentences endedAt srv =
     (case findFirst sid u (db_sessions srv) of
        None \<Rightarrow> (NotFound404 ''Session not found'', srv)
      | Some existing \<Rightarrow>
          (let completedSentences = present_or sentences [];
               duration = (endedAt - s_startedAt existing) div 1000;
               srv1 = srv\<lparr>db_sessions := (db_sessions srv)
                        (sid \<mapsto> existing\<lparr>s_endedAt := Some endedAt,
                                          s_duration := Some duration,
                                          s_completedSentences := completedSentences,
                                          s_updatedAt := endedAt\<rparr>)\<rparr>;
               srv2 = call (ProgressUpdate u) srv1;
               srv3 =
                 (if length completedSentences \<ge> 3 then
                    (let srv' = call (MemoryGardenArt completedSentences) srv2
                     in case art of
                          Inl msg \<Rightarrow> srv'
                        | Inr _ \<Rightarrow> call (MemoryGardenCreate u) srv')
                  else srv2)
           in (Success, srv3)))"

text \<open>Whether a log holds a request for artwork.\<close>

fun is_art_call :: "action \<Rightarrow> bool" where
  "is_art_call (Call (MemoryGardenArt _)) = True"
| "is_art_call _ = False"

definition artwork_triggered :: "action list \<Rightarrow> bool" where
  "artwork_triggered as = (filter is_art_call as \<noteq> [])"

subsection \<open>The dispatcher over time\<close>

text \<open>
  Turns of several sockets interleave at their awaits. A turn is in flight from the
  moment \<^verbatim>\<open>processSpeechInput\<close> has set the flag until its \<^verbatim>\<open>finally\<close> block
  runs; \<open>inflight\<close> counts, for each user, the turns in flight. The stages in between
  do not touch the flag.
\<close>

record dispatcher =
  srv :: server
  inflight :: "userId \<Rightarrow> nat"

datatype dispatch_event =
    SubmitTurn socket speech_data
  | Settle socket int
  | Disconnect socket

text \<open>
  \<open>SubmitTurn\<close> is the \<^verbatim>\<open>process_speech\<close> handler up to the first await;
  \<open>Settle\<close> is the \<^verbatim>\<open>finally\<close> block of a turn in flight of that socket's user;
  \<open>Disconnect\<close> is \<^verbatim>\<open>handleDisconnection\<close>.
\<close>

fun dispatch_step :: "dispatcher \<Rightarrow> dispatch_event \<Rightarrow> dispatcher" where
  "dispatch_step d (SubmitTurn sock data) =
     (case sock_userId sock of
        None \<Rightarrow> d\<lparr>srv := emit sock (error_ev ''Not authenticated'') (srv d)\<rparr>
      | Some u \<Rightarrow>
          if busy u (srv d) then d\<lparr>srv := emit sock processing_busy (srv d)\<rparr>
          else
            d\<lparr>srv := emit sock (processing_started (timestamp data))
                       (mark_processing u (srv d)),
              inflight := (inflight d)(u := inflight d u + 1)\<rparr>)"
| "dispatch_step d (Settle sock t) =
     (case sock_userId sock of
        None \<Rightarrow> d
      | Some u \<Rightarrow>
          if inflight d u = 0 then d
          else d\<lparr>srv := finally_block sock u t (srv d),
                 inflight := (inflight d)(u := inflight d u - 1)\<rparr>)"
| "dispatch_step d (Disconnect sock) = d\<lparr>srv := handleDisconnection sock (srv d)\<rparr>"

definition dispatch_run :: "dispatcher \<Rightarrow> dispatch_event list \<Rightarrow> dispatcher" where
  "dispatch_run d evs = foldl dispatch_step d evs"

definition init_dispatcher :: dispatcher where
  "init_dispatcher = \<lparr>srv = init_server, inflight = (\<lambda>u. 0)\<rparr>"

fun is_disconnect :: "dispatch_event \<Rightarrow> bool" where
  "is_disconnect (Disconnect _) = True"
| "is_disconnect _ = False"

subsection \<open>Reading the log\<close>

text \<open>What a handler added to the log between two states.\<close>

definition new_actions :: "server \<Rightarrow> server \<Rightarrow> action list" where
  "new_actions s s' = drop (length (trace s)) (trace s')"

text \<open>The events that the stages of the \<^verbatim>\<open>try\<close> block can emit.\<close>

definition stage_names :: "string set" where
  "stage_names = {''processing_started'', ''transcription_ready'', ''predictions_ready'',
                  ''visual_aid_ready'', ''audio_hint_ready''}"

text \<open>
  The order of the five events of a turn with a visual aid, and a list of event names
  restricted to those five.
\<close>

definition turn_order :: "string list" where
  "turn_order = [''processing_started'', ''transcription_ready'', ''predictions_ready'',
                 ''visual_aid_ready'', ''processing_complete'']"

definition on_turn_order :: "string list \<Rightarrow> string list" where
  "on_turn_order ns = filter (\<lambda>n. n \<in> set turn_order) ns"

subsection \<open>Runs of the dispatcher without a disconnect in flight\<close>

text \<open>
  \<open>disconnects u e\<close>: the event is the disconnection of a socket of user \<open>u\<close>.
  \<open>no_disconnect_in_flight u d evs\<close>: along the run of \<open>evs\<close> from \<open>d\<close>, no socket of
  \<open>u\<close> disconnects while a turn of \<open>u\<close> is in flight.
\<close>

fun disconnects :: "userId \<Rightarrow> dispatch_event \<Rightarrow> bool" where
  "disconnects u (Disconnect sock) = (sock_userId sock = Some u)"
| "disconnects u _ = False"

fun no_disconnect_in_flight :: "userId \<Rightarrow> dispatcher \<Rightarrow> dispatch_event list \<Rightarrow> bool" where
  "no_disconnect_in_flight u d [] = True"
| "no_disconnect_in_flight u d (e # es) =
     ((if disconnects u e then inflight d u = 0 else True)
      \<and> no_disconnect_in_flight u (dispatch_step d e) es)"

text \<open>At most one turn of \<open>u\<close> is in flight, and the flag is set exactly when one is.\<close>

definition single_flight :: "userId \<Rightarrow> dispatcher \<Rightarrow> bool" where
  "single_flight u d = (inflight d u \<le> 1 \<and> (busy u (srv d) = (inflight d u = 1)))"

subsection \<open>Sample inputs\<close>

text \<open>A GPT-4o reply with every field missing, and a feedback on session \<open>s1\<close>.\<close>

definition a0 :: rawAnalysis where
  "a0 = \<lparr>ra_intendedMeaning = None, ra_confidence = None, ra_wordPredictions = None,
          ra_assistanceLevel = None, ra_visualCues = None, ra_audioHint = None,
          ra_emotionalContext = None, ra_recommendations = None\<rparr>"

definition fb1 :: "bool \<Rightarrow> feedback" where
  "fb1 b = \<lparr>fb_sessionId = Some ''s1'', predictionAccepted = b,
            suggestion = ''park'', actualIntent = ''park''\<rparr>"

text \<open>Sockets: one not yet authenticated, two of user alice.\<close>

definition sock0 :: socket where
  "sock0 = \<lparr>sock_id = 1, sock_userId = None, sock_sessionId = None\<rparr>"

definition sockA :: socket where
  "sockA = \<lparr>sock_id = 1, sock_userId = Some ''alice'', sock_sessionId = None\<rparr>"

definition sockB :: socket where
  "sockB = \<lparr>sock_id = 2, sock_userId = Some ''alice'', sock_sessionId = None\<rparr>"

definition data0 :: speech_data where
  "data0 = \<lparr>audioData = ''UklGRg=='', videoFrame = None, timestamp = 1000\<rparr>"

text \<open>
  The turn of the specification's scenario: the transcript "I went... park", an analysis
  that suggests a visual aid for "park", and every remote call succeeding.
\<close>

definition w1 :: whisper_response where
  "w1 = \<lparr>wr_text = ''I went... park'',
          wr_words = Some [\<lparr>w_word = ''I'', w_start = 0, w_end = 1 / 5\<rparr>,
                           \<lparr>w_word = ''went'', w_start = 1 / 5, w_end = 3 / 5\<rparr>,
                           \<lparr>w_word = ''park'', w_start = 3 / 2, w_end = 2\<rparr>],
          wr_language = ''english'', wr_duration = 2\<rparr>"

definition a1 :: rawAnalysis where
  "a1 = \<lparr>ra_intendedMeaning = Some ''I went for a walk in the park'',
          ra_confidence = Some (17 / 20),
          ra_wordPredictions = Some [''walk'', ''park''],
          ra_assistanceLevel = Some ''medium'',
          ra_visualCues = Some \<lparr>vc_suggested = True, vc_concept = Some ''park''\<rparr>,
          ra_audioHint = None,
          ra_emotionalContext = None,
          ra_recommendations = None\<rparr>"

definition oc1 :: outcomes where
  "oc1 = \<lparr>whisper = Inr w1, user_lookup_fault = None, gpt = Inr a1,
           dalle = Inr ''https://img.example/park.png'', session_store_fault = None,
           at_analysis = 1500, at_update = 1800, at_complete = 2000\<rparr>"

definition three_sentences :: "string list" where
  "three_sentences = [''I went to the park'', ''I saw a dog'', ''It was sunny'']"

text \<open>
  A socket authenticates as alice, starts session \<open>s1\<close>, authenticates again as mallory
  and submits a turn.
\<close>

definition reauth_1 :: "socket \<times> server" where
  "reauth_1 = on_authenticate (Some ''alice'') sock0 init_server"

definition reauth_2 :: "socket \<times> server" where
  "reauth_2 = on_start_session (Inr ''s1'') 100 (fst reauth_1) (snd reauth_1)"

definition reauth_3 :: "socket \<times> server" where
  "reauth_3 = on_authenticate (Some ''mallory'') (fst reauth_2) (snd reauth_2)"

definition reauth_4 :: server where
  "reauth_4 = on_process_speech oc1 (fst reauth_3) data0 (snd reauth_3)"

text \<open>
  Alice starts session \<open>s1\<close> over the socket, stores three completed sentences with the
  update route, and ends the session over the socket.
\<close>

definition ending_1 :: "socket \<times> server" where
  "ending_1 = on_start_session (Inr ''s1'') 0 sockA init_server"

definition ending_2 :: server where
  "ending_2 =
     (snd ending_1)\<lparr>db_sessions :=
        snd (update_route None ''alice'' ''s1''
               \<lparr>ub_transcript = None, ub_predictions = None,
                ub_completedSentences = Some three_sentences,
                ub_confidence = None, ub_visualAids = None\<rparr>
               10 (db_sessions (snd ending_1)))\<rparr>"

definition ending_3 :: "socket \<times> server" where
  "ending_3 = on_end_session None 5000 (fst ending_1) ending_2"

section \<open>Properties\<close>

subsection \<open>Transcription confidence\<close>

lemma word_confidence_num:
  "\<not> degenerate_word w \<Longrightarrow> word_confidence w = Num (capped_ratio w)"
  by (auto simp: word_confidence_def degenerate_word_def capped_ratio_def Let_def)

lemma fold_confidence_num:
  "\<forall>w \<in> set ws. \<not> degenerate_word w \<Longrightarrow>
   foldl (\<lambda>sum w. js_add sum (word_confidence w)) (Num a) ws
     = Num (a + sum_list (map capped_ratio ws))"
  by (induction ws arbitrary: a) (simp_all add: word_confidence_num add.assoc)

text \<open>
  Away from the quotient \<^verbatim>\<open>0 / 0\<close> the estimate is the clamped average of the capped
  per-word ratios, and it is 0 for an absent or empty word list.
\<close>

lemma confidence_regular:
  assumes "\<forall>w \<in> set ws. \<not> degenerate_word w" and "ws \<noteq> []"
  shows "calculateTranscriptionConfidence (Some ws)
           = Num (clamp01 (sum_list (map capped_ratio ws) / of_nat (length ws)))"
  using assms
  by (simp add: calculateTranscriptionConfidence_def fold_confidence_num clamp01_def)

lemma confidence_no_words:
  "calculateTranscriptionConfidence None = Num 0"
  "calculateTranscriptionConfidence (Some []) = Num 0"
  by (simp_all add: calculateTranscriptionConfidence_def)

lemma confidence_regular_bounds:
  assumes "\<forall>w \<in> set ws. \<not> degenerate_word w"
  shows "in_unit_interval (calculateTranscriptionConfidence (Some ws))"
proof (cases "ws = []")
  case True
  then show ?thesis by (simp add: calculateTranscriptionConfidence_def)
next
  case False
  with assms show ?thesis by (simp add: confidence_regular clamp01_def)
qed

lemma confidence_example:
  "calculateTranscriptionConfidence
     (Some [\<lparr>w_word = ''park'', w_start = 0, w_end = 1 / 2\<rparr>,
            \<lparr>w_word = ''I'', w_start = 1, w_end = 2\<rparr>]) = Num (9 / 20)"
  by (simp add: calculateTranscriptionConfidence_def word_confidence_def)

text \<open>
  Claim C9 says that the derived confidence lies in [0,1] for every transcription
  result. The code clamps the average with \<^verbatim>\<open>Math.max(0, Math.min(1, ...))\<close>, but a
  word with empty text and equal start and end makes the per-word quotient
  \<^verbatim>\<open>0 / 0\<close>; the NaN passes through the sum, the division and both clamps, and the
  confidence of the whole transcript is NaN.
\<close>

theorem C9_confidence_nan_on_empty_instant_word:
  "calculateTranscriptionConfidence (Some [\<lparr>w_word = [], w_start = 1, w_end = 1\<rparr>]) = NaN
   \<and> \<not> in_unit_interval
         (calculateTranscriptionConfidence (Some [\<lparr>w_word = [], w_start = 1, w_end = 1\<rparr>]))"
  by (simp add: calculateTranscriptionConfidence_def word_confidence_def)

subsection \<open>The context store\<close>

lemma length_filter_bound: "length xs \<le> n \<Longrightarrow> length (filter P xs) \<le> n"
  using length_filter_le[of P xs] by linarith

lemma ctx_run_snoc: "ctx_run s (evs @ [e]) = ctx_step (ctx_run s evs) e"
  by (simp add: ctx_run_def)

lemma ctx_step_inv:
  assumes inv: "\<And>u c. store s u = Some c \<Longrightarrow>
                  length c \<le> 10 \<and> c \<noteq> [] \<and> (\<forall>e \<in> set c. ce_timestamp e \<le> clock s)"
    and st: "store (ctx_step s ev) u = Some c"
  shows "length c \<le> 10 \<and> c \<noteq> [] \<and> (\<forall>e \<in> set c. ce_timestamp e \<le> clock (ctx_step s ev))"
proof (cases ev)
  case (Append v tx a)
  show ?thesis
  proof (cases "u = v")
    case True
    with st Append inv[of v] show ?thesis
      by (auto simp: updateConversationContext_def Let_def slice_last_def
               split: option.splits if_splits dest!: in_set_dropD)
  next
    case False
    with st Append inv[of u c] show ?thesis
      by (simp add: updateConversationContext_def Let_def)
  qed
next
  case (Sweep m)
  with st obtain c0 where c0: "store s u = Some c0"
    and c: "c = filter (\<lambda>item. clock s - ce_timestamp item < m) c0" and ne: "c \<noteq> []"
    by (auto simp: sweep_def Let_def split: option.splits if_splits)
  from inv[OF c0] have "length c0 \<le> 10" and ts: "\<forall>e \<in> set c0. ce_timestamp e \<le> clock s"
    by simp_all
  then show ?thesis using ne Sweep c by (auto intro: length_filter_bound)
next
  case (Tick d)
  with st inv[of u c] show ?thesis by fastforce
qed

lemma ctx_run_inv:
  "store (ctx_run (ctx_init t0) evs) u = Some c \<Longrightarrow>
   length c \<le> 10 \<and> c \<noteq> [] \<and>
   (\<forall>e \<in> set c. ce_timestamp e \<le> clock (ctx_run (ctx_init t0) evs))"
proof (induction evs arbitrary: u c rule: rev_induct)
  case Nil
  then show ?case by (simp add: ctx_run_def ctx_init_def)
next
  case (snoc ev evs)
  show ?case
    unfolding ctx_run_snoc
    by (rule ctx_step_inv[where s = "ctx_run (ctx_init t0) evs"])
       (use snoc in \<open>auto simp: ctx_run_snoc\<close>)
qed

lemma sweep_zero_empty:
  assumes "\<And>u c. ctxs u = Some c \<Longrightarrow> \<forall>e \<in> set c. ce_timestamp e \<le> now"
  shows "sweep 0 now ctxs = Map.empty"
proof
  fix u
  show "sweep 0 now ctxs u = None"
  proof (cases "ctxs u")
    case None
    then show ?thesis by (simp add: sweep_def)
  next
    case (Some c)
    with assms[OF Some] have "filter (\<lambda>item. now - ce_timestamp item < 0) c = []"
      by (auto simp: filter_empty_conv)
    with Some show ?thesis by (simp add: sweep_def)
  qed
qed

text \<open>
  Claim C5. In every state \<open>s\<close> reached from the empty store by appends, sweeps and
  the passing of time, and for every user \<open>u\<close>: the user's context has at most 10
  entries; an append puts the new entry last and drops the oldest entry when there were
  already 10; a sweep keeps exactly the entries younger than the maximum age and deletes
  the user's list when none is left; and after a sweep with maximum age 0 the store is
  empty.
\<close>

theorem C5_context_bounded_and_swept:
  assumes s: "s = ctx_run (ctx_init t0) evs"
  shows "(case store s u of None \<Rightarrow> True | Some c \<Rightarrow> length c \<le> 10 \<and> c \<noteq> [])
    \<and> (case store s u of
         None \<Rightarrow> store (ctx_step s (Append u text a)) u
                  = Some [\<lparr>ce_transcription = text, ce_analysis = a, ce_timestamp = clock s\<rparr>]
       | Some c \<Rightarrow> store (ctx_step s (Append u text a)) u
                  = Some ((if length c = 10 then tl c else c)
                      @ [\<lparr>ce_transcription = text, ce_analysis = a, ce_timestamp = clock s\<rparr>]))
    \<and> (case store (ctx_step s (Sweep maxAge)) u of
         None \<Rightarrow> (case store s u of
                    None \<Rightarrow> True
                  | Some c \<Rightarrow> \<forall>e \<in> set c. maxAge \<le> clock s - ce_timestamp e)
       | Some c' \<Rightarrow> c' \<noteq> [] \<and> length c' \<le> 10
            \<and> store s u \<noteq> None
            \<and> c' = filter (\<lambda>e. clock s - ce_timestamp e < maxAge) (the (store s u)))
    \<and> store (ctx_step s (Sweep 0)) = Map.empty"
proof -
  have inv: "\<And>u c. store s u = Some c \<Longrightarrow>
     length c \<le> 10 \<and> c \<noteq> [] \<and> (\<forall>e \<in> set c. ce_timestamp e \<le> clock s)"
    unfolding s by (rule ctx_run_inv)
  have p1: "case store s u of None \<Rightarrow> True | Some c \<Rightarrow> length c \<le> 10 \<and> c \<noteq> []"
    using inv[of u] by (simp split: option.splits)
  have p2: "case store s u of
         None \<Rightarrow> store (ctx_step s (Append u text a)) u
                  = Some [\<lparr>ce_transcription = text, ce_analysis = a, ce_timestamp = clock s\<rparr>]
       | Some c \<Rightarrow> store (ctx_step s (Append u text a)) u
                  = Some ((if length c = 10 then tl c else c)
                      @ [\<lparr>ce_transcription = text, ce_analysis = a, ce_timestamp = clock s\<rparr>])"
    using inv[of u]
    by (auto simp: updateConversationContext_def Let_def slice_last_def drop_Suc
             split: option.splits)
  have p3: "case store (ctx_step s (Sweep maxAge)) u of
         None \<Rightarrow> (case store s u of
                    None \<Rightarrow> True
                  | Some c \<Rightarrow> \<forall>e \<in> set c. maxAge \<le> clock s - ce_timestamp e)
       | Some c' \<Rightarrow> c' \<noteq> [] \<and> length c' \<le> 10
            \<and> store s u \<noteq> None
            \<and> c' = filter (\<lambda>e. clock s - ce_timestamp e < maxAge) (the (store s u))"
  proof (cases "store s u")
    case None
    then show ?thesis by (simp add: sweep_def)
  next
    case (Some c)
    with inv[OF Some] show ?thesis
      by (auto simp: sweep_def Let_def filter_empty_conv not_less
               intro: length_filter_bound split: option.splits)
  qed
  have p4: "store (ctx_step s (Sweep 0)) = Map.empty"
    using inv by (simp add: sweep_zero_empty)
  from p1 p2 p3 p4 show ?thesis by blast
qed


theorem C5_witness:
  "(\<exists>c. store (ctx_run (ctx_init 0)
        [Append ''u'' ''t1'' a0, Append ''u'' ''t2'' a0, Append ''u'' ''t3'' a0,
         Append ''u'' ''t4'' a0, Append ''u'' ''t5'' a0, Append ''u'' ''t6'' a0,
         Append ''u'' ''t7'' a0, Append ''u'' ''t8'' a0, Append ''u'' ''t9'' a0,
         Append ''u'' ''t10'' a0, Append ''u'' ''t11'' a0, Tick 7]) ''u'' = Some c
       \<and> length c = 10 \<and> map ce_transcription c =
           [''t2'', ''t3'', ''t4'', ''t5'', ''t6'', ''t7'', ''t8'', ''t9'', ''t10'', ''t11''])
   \<and> store (ctx_step (ctx_run (ctx_init 0)
        [Append ''u'' ''t1'' a0, Append ''u'' ''t2'' a0, Append ''u'' ''t3'' a0,
         Append ''u'' ''t4'' a0, Append ''u'' ''t5'' a0, Append ''u'' ''t6'' a0,
         Append ''u'' ''t7'' a0, Append ''u'' ''t8'' a0, Append ''u'' ''t9'' a0,
         Append ''u'' ''t10'' a0, Append ''u'' ''t11'' a0, Tick 7]) (Sweep 0)) = Map.empty"
  using C5_context_bounded_and_swept[OF refl, of 0
        "[Append ''u'' ''t1'' a0, Append ''u'' ''t2'' a0, Append ''u'' ''t3'' a0,
         Append ''u'' ''t4'' a0, Append ''u'' ''t5'' a0, Append ''u'' ''t6'' a0,
         Append ''u'' ''t7'' a0, Append ''u'' ''t8'' a0, Append ''u'' ''t9'' a0,
         Append ''u'' ''t10'' a0, Append ''u'' ''t11'' a0, Tick 7]" "''u''" "''t''" a0 0]
  by (simp add: ctx_run_def ctx_init_def updateConversationContext_def slice_last_def)

text \<open>The sweep of the source is the sweep with a maximum age of thirty minutes.\<close>

lemma cleanupContexts_keeps_young:
  "cleanupContexts now ctxs u = Some c \<Longrightarrow>
   c \<noteq> [] \<and> (\<forall>e \<in> set c. now - ce_timestamp e < 1800000)"
  by (auto simp: cleanupContexts_def sweep_def Let_def split: option.splits if_splits)

subsection \<open>Feedback counters\<close>

text \<open>
  Every update a handler computes from a row with the counters in order has them in
  order, so the order of the counters survives every interleaving of reads and writes.
\<close>

lemma counters_after_ordered:
  "s_successfulPredictions session \<le> s_totalPredictions session \<Longrightarrow>
   cu_successfulPredictions (counters_after sid accepted session)
     \<le> cu_totalPredictions (counters_after sid accepted session)"
  by (simp add: counters_after_def)

lemma read_ordered:
  assumes "\<And>sid s. db sid = Some s \<Longrightarrow> s_successfulPredictions s \<le> s_totalPredictions s"
  shows "processFeedback_read u fb db = Some cu \<Longrightarrow>
           cu_successfulPredictions cu \<le> cu_totalPredictions cu"
    and "feedback_route_read u fb db = Some cu \<Longrightarrow>
           cu_successfulPredictions cu \<le> cu_totalPredictions cu"
  using assms
  by (auto simp: processFeedback_read_def feedback_route_read_def findFirst_def Let_def
           intro!: counters_after_ordered split: if_splits option.splits)

lemma session_update_counters_ordered:
  assumes "\<And>sid s. db sid = Some s \<Longrightarrow> s_successfulPredictions s \<le> s_totalPredictions s"
    and "cu_successfulPredictions cu \<le> cu_totalPredictions cu"
    and "session_update_counters cu db sid = Some s"
  shows "s_successfulPredictions s \<le> s_totalPredictions s"
  using assms
  by (auto simp: session_update_counters_def split: option.splits if_splits)

lemma set_remove_nth: "set (take i xs @ drop (Suc i) xs) \<subseteq> set xs"
  using set_take_subset[of i xs] set_drop_subset[of "Suc i" xs] by auto

lemma feedback_step_ordered:
  assumes db: "\<And>sid s. fs_db st sid = Some s \<Longrightarrow>
                 s_successfulPredictions s \<le> s_totalPredictions s"
    and iss: "\<And>cu. cu \<in> set (fs_issued st) \<Longrightarrow>
                 cu_successfulPredictions cu \<le> cu_totalPredictions cu"
  shows "fs_db (feedback_step st ev) sid = Some s \<Longrightarrow>
           s_successfulPredictions s \<le> s_totalPredictions s"
    and "cu \<in> set (fs_issued (feedback_step st ev)) \<Longrightarrow>
           cu_successfulPredictions cu \<le> cu_totalPredictions cu"
proof -
  show "fs_db (feedback_step st ev) sid = Some s \<Longrightarrow>
           s_successfulPredictions s \<le> s_totalPredictions s"
  proof (cases ev)
    case (SocketFeedback u fb)
    assume "fs_db (feedback_step st ev) sid = Some s"
    with SocketFeedback db[of sid s] show ?thesis
      by (simp add: issue_def split: option.splits)
  next
    case (HttpFeedback u fb)
    assume "fs_db (feedback_step st ev) sid = Some s"
    with HttpFeedback db[of sid s] show ?thesis
      by (simp add: issue_def split: option.splits)
  next
    case (UpdateApplied i)
    assume a: "fs_db (feedback_step st ev) sid = Some s"
    show ?thesis
    proof (cases "i < length (fs_issued st)")
      case True
      then have "fs_issued st ! i \<in> set (fs_issued st)" by simp
      from iss[OF this] a True UpdateApplied show ?thesis
        by (auto intro: session_update_counters_ordered[OF db])
    next
      case False
      with a UpdateApplied db[of sid s] show ?thesis by simp
    qed
  qed
  show "cu \<in> set (fs_issued (feedback_step st ev)) \<Longrightarrow>
           cu_successfulPredictions cu \<le> cu_totalPredictions cu"
  proof (cases ev)
    case (SocketFeedback u fb)
    assume "cu \<in> set (fs_issued (feedback_step st ev))"
    with SocketFeedback iss[of cu] read_ordered(1)[where db = "fs_db st" and u = u and fb = fb and cu = cu, OF db] show ?thesis
      by (auto simp: issue_def split: option.splits)
  next
    case (HttpFeedback u fb)
    assume "cu \<in> set (fs_issued (feedback_step st ev))"
    with HttpFeedback iss[of cu] read_ordered(2)[where db = "fs_db st" and u = u and fb = fb and cu = cu, OF db] show ?thesis
      by (auto simp: issue_def split: option.splits)
  next
    case (UpdateApplied i)
    assume "cu \<in> set (fs_issued (feedback_step st ev))"
    with UpdateApplied set_remove_nth[of i "fs_issued st"] have "cu \<in> set (fs_issued st)"
      by (auto split: if_splits)
    then show ?thesis by (rule iss)
  qed
qed

lemma feedback_run_ordered:
  assumes "\<And>sid s. fs_db st sid = Some s \<Longrightarrow>
             s_successfulPredictions s \<le> s_totalPredictions s"
    and "\<And>cu. cu \<in> set (fs_issued st) \<Longrightarrow>
             cu_successfulPredictions cu \<le> cu_totalPredictions cu"
  shows "fs_db (feedback_run st evs) sid = Some s \<Longrightarrow>
           s_successfulPredictions s \<le> s_totalPredictions s"
  using assms
proof (induction evs arbitrary: st)
  case Nil
  then show ?case by (simp add: feedback_run_def)
next
  case (Cons ev evs)
  have "fs_db (feedback_run (feedback_step st ev) evs) sid = Some s"
    using Cons.prems(1) by (simp add: feedback_run_def)
  then show ?case
  proof (rule Cons.IH)
    show "\<And>sid s. fs_db (feedback_step st ev) sid = Some s \<Longrightarrow>
             s_successfulPredictions s \<le> s_totalPredictions s"
      by (rule feedback_step_ordered(1)[of st]) (use Cons.prems in auto)
    show "\<And>cu. cu \<in> set (fs_issued (feedback_step st ev)) \<Longrightarrow>
             cu_successfulPredictions cu \<le> cu_totalPredictions cu"
      by (rule feedback_step_ordered(2)[of st]) (use Cons.prems in auto)
  qed
qed

text \<open>
  The order of the counters: from a table in which every session has at most as many
  successful predictions as predictions (a new session has 0 and 0), every sequence of
  feedback reads and writes, in any interleaving, leaves every session so.
\<close>

lemma feedback_counters_ordered:
  assumes "\<And>sid s. db sid = Some s \<Longrightarrow> s_successfulPredictions s \<le> s_totalPredictions s"
    and "fs_db (feedback_run (feedback_init db) evs) sid = Some s"
  shows "s_successfulPredictions s \<le> s_totalPredictions s"
proof (rule feedback_run_ordered[where st = "feedback_init db" and evs = evs and sid = sid])
  show "\<And>sid s. fs_db (feedback_init db) sid = Some s \<Longrightarrow>
          s_successfulPredictions s \<le> s_totalPredictions s"
    using assms(1) by (simp add: feedback_init_def)
  show "\<And>cu. cu \<in> set (fs_issued (feedback_init db)) \<Longrightarrow>
          cu_successfulPredictions cu \<le> cu_totalPredictions cu"
    by (simp add: feedback_init_def)
  show "fs_db (feedback_run (feedback_init db) evs) sid = Some s" by (rule assms(2))
qed

text \<open>
  A handler whose write follows its read with nothing in between adds one to the total
  and adds one to the successful count exactly when the prediction was accepted.
\<close>

lemma feedback_alone_counts:
  assumes "fs_issued st = []" and "fs_db st sid = Some s"
    and "fb_sessionId fb = Some sid" and "sid \<noteq> []"
  shows "feedback_run st [SocketFeedback u fb, UpdateApplied 0]
           = st\<lparr>fs_db := (fs_db st)(sid \<mapsto>
                   s\<lparr>s_successfulPredictions :=
                        s_successfulPredictions s + (if predictionAccepted fb then 1 else 0),
                      s_totalPredictions := s_totalPredictions s + 1\<rparr>)\<rparr>"
    and "s_userId s = u \<Longrightarrow>
         feedback_run st [HttpFeedback u fb, UpdateApplied 0]
           = st\<lparr>fs_db := (fs_db st)(sid \<mapsto>
                   s\<lparr>s_successfulPredictions :=
                        s_successfulPredictions s + (if predictionAccepted fb then 1 else 0),
                      s_totalPredictions := s_totalPredictions s + 1\<rparr>)\<rparr>"
  using assms
  by (simp_all add: feedback_run_def issue_def processFeedback_read_def
        feedback_route_read_def findFirst_def truthy_def counters_after_def
        session_update_counters_def)

text \<open>
  Claim C6 says that each recorded feedback increments the total by one, and the
  successful count by one when the prediction was accepted. Two accepted feedbacks on
  session \<open>s1\<close> arrive back to back: both handlers read the row with the counters at 0
  and 0, both compute the values 1 and 1, and both updates write them. Two feedbacks
  are recorded and the session counts one prediction.
\<close>

theorem C6_interleaved_feedback_loses_update:
  "fs_issued (feedback_run (feedback_init [''s1'' \<mapsto> new_session ''alice'' 0])
       [SocketFeedback ''alice'' (fb1 True), SocketFeedback ''alice'' (fb1 True)])
     = [\<lparr>cu_sessionId = ''s1'', cu_successfulPredictions = 1, cu_totalPredictions = 1\<rparr>,
        \<lparr>cu_sessionId = ''s1'', cu_successfulPredictions = 1, cu_totalPredictions = 1\<rparr>]
   \<and> fs_issued (feedback_run (feedback_init [''s1'' \<mapsto> new_session ''alice'' 0])
       [SocketFeedback ''alice'' (fb1 True), SocketFeedback ''alice'' (fb1 True),
        UpdateApplied 0, UpdateApplied 0]) = []
   \<and> map_option s_totalPredictions
        (fs_db (feedback_run (feedback_init [''s1'' \<mapsto> new_session ''alice'' 0])
           [SocketFeedback ''alice'' (fb1 True), SocketFeedback ''alice'' (fb1 True),
            UpdateApplied 0, UpdateApplied 0]) ''s1'') = Some 1
   \<and> map_option s_successfulPredictions
        (fs_db (feedback_run (feedback_init [''s1'' \<mapsto> new_session ''alice'' 0])
           [SocketFeedback ''alice'' (fb1 True), SocketFeedback ''alice'' (fb1 True),
            UpdateApplied 0, UpdateApplied 0]) ''s1'') = Some 1"
  by (simp add: feedback_run_def feedback_init_def issue_def processFeedback_read_def
        truthy_def fb1_def counters_after_def session_update_counters_def new_session_def)

text \<open>The same two feedbacks, each written before the next is read, count two.\<close>

lemma serial_feedback_example:
  "map_option s_totalPredictions
     (fs_db (feedback_run (feedback_init [''s1'' \<mapsto> new_session ''alice'' 0])
        [SocketFeedback ''alice'' (fb1 True), UpdateApplied 0,
         HttpFeedback ''alice'' (fb1 False), UpdateApplied 0]) ''s1'') = Some 2
   \<and> map_option s_successfulPredictions
     (fs_db (feedback_run (feedback_init [''s1'' \<mapsto> new_session ''alice'' 0])
        [SocketFeedback ''alice'' (fb1 True), UpdateApplied 0,
         HttpFeedback ''alice'' (fb1 False), UpdateApplied 0]) ''s1'') = Some 1"
  by (simp add: feedback_run_def feedback_init_def issue_def processFeedback_read_def
        feedback_route_read_def findFirst_def truthy_def fb1_def counters_after_def
        session_update_counters_def new_session_def)

subsection \<open>The turn pipeline: what each stage adds to the log\<close>

lemma emit_fields:
  "trace (emit sock e s) = trace s @ [Emit (sock_id sock) e]"
  "processingQueue (emit sock e s) = processingQueue s"
  "conversationContexts (emit sock e s) = conversationContexts s"
  "db_sessions (emit sock e s) = db_sessions s"
  "activeConnections (emit sock e s) = activeConnections s"
  by (simp_all add: emit_def)

lemma call_fields:
  "trace (call r s) = trace s @ [Call r]"
  "processingQueue (call r s) = processingQueue s"
  "conversationContexts (call r s) = conversationContexts s"
  "db_sessions (call r s) = db_sessions s"
  "activeConnections (call r s) = activeConnections s"
  by (simp_all add: call_def)

lemma busy_emit: "busy u (emit sock e s) = busy u s"
  by (simp add: busy_def emit_fields)

lemma emitted_append: "emitted (xs @ ys) = emitted xs @ emitted ys"
  by (induction xs rule: emitted.induct) simp_all

lemma names_append: "names (xs @ ys) = names xs @ names ys"
  by (simp add: names_def emitted_append)

lemma names_simps:
  "names [] = []"
  "names (Emit k e # as) = name_of e # names as"
  "names (Call r # as) = names as"
  by (simp_all add: names_def)

text \<open>What a stage adds to the log, and what it leaves alone.\<close>

lemma visual_aid_stage_adds:
  "\<exists>pre. trace (visual_aid_stage oc sock an s) = trace s @ pre
         \<and> set (names pre) \<subseteq> {''visual_aid_ready''}"
  by (auto simp: visual_aid_stage_def Let_def emit_fields call_fields names_simps
           split: sum.splits)

lemma visual_aid_stage_keeps:
  "processingQueue (visual_aid_stage oc sock an s) = processingQueue s"
  "conversationContexts (visual_aid_stage oc sock an s) = conversationContexts s"
  "db_sessions (visual_aid_stage oc sock an s) = db_sessions s"
  by (simp_all add: visual_aid_stage_def Let_def emit_fields call_fields split: sum.splits)

lemma audio_hint_stage_adds:
  "\<exists>pre. trace (audio_hint_stage sock an s) = trace s @ pre
         \<and> set (names pre) \<subseteq> {''audio_hint_ready''}"
  by (auto simp: audio_hint_stage_def emit_fields names_simps)

lemma audio_hint_stage_keeps:
  "processingQueue (audio_hint_stage sock an s) = processingQueue s"
  "conversationContexts (audio_hint_stage sock an s) = conversationContexts s"
  "db_sessions (audio_hint_stage sock an s) = db_sessions s"
  by (simp_all add: audio_hint_stage_def emit_fields)

lemma session_update_stage_adds:
  "session_update_stage oc sock tr an s = (r, s') \<Longrightarrow>
   \<exists>pre. trace s' = trace s @ pre \<and> names pre = []"
  by (auto simp: session_update_stage_def Let_def call_fields names_simps
           split: option.splits sum.splits)

lemma session_update_stage_keeps:
  "session_update_stage oc sock tr an s = (r, s') \<Longrightarrow>
   processingQueue s' = processingQueue s \<and> conversationContexts s' = conversationContexts s"
  by (auto simp: session_update_stage_def Let_def call_fields
           split: option.splits sum.splits)

lemma stage_names_mem:
  "''processing_started'' \<in> stage_names"
  "''transcription_ready'' \<in> stage_names"
  "''predictions_ready'' \<in> stage_names"
  "''visual_aid_ready'' \<in> stage_names"
  "''audio_hint_ready'' \<in> stage_names"
  "''processing_complete'' \<notin> stage_names"
  "''processing_error'' \<notin> stage_names"
  "''processing_busy'' \<notin> stage_names"
  by (simp_all add: stage_names_def)

lemma stage_names_sub:
  assumes "set xs \<subseteq> {''visual_aid_ready'', ''audio_hint_ready''}"
  shows "set xs \<subseteq> stage_names"
proof -
  have "{''visual_aid_ready'', ''audio_hint_ready''} \<subseteq> stage_names"
    by (simp add: stage_names_mem)
  with assms show ?thesis by (rule subset_trans)
qed

lemma assist_stages_adds:
  assumes "assist_stages oc sock tr an s = (r, s')"
  shows "\<exists>pre. trace s' = trace s @ pre
           \<and> set (names pre) \<subseteq> {''visual_aid_ready'', ''audio_hint_ready''}"
proof -
  obtain p4 where p4: "trace (visual_aid_stage oc sock an s) = trace s @ p4"
      "set (names p4) \<subseteq> {''visual_aid_ready''}"
    using visual_aid_stage_adds by blast
  obtain p5 where p5: "trace (audio_hint_stage sock an (visual_aid_stage oc sock an s))
        = trace (visual_aid_stage oc sock an s) @ p5"
      "set (names p5) \<subseteq> {''audio_hint_ready''}"
    using audio_hint_stage_adds by blast
  obtain p6 where p6: "trace s'
        = trace (audio_hint_stage sock an (visual_aid_stage oc sock an s)) @ p6"
      "names p6 = []"
    using session_update_stage_adds[OF assms[unfolded assist_stages_def]] by blast
  have "trace s' = trace s @ (p4 @ p5 @ p6)"
    by (simp add: p4 p5 p6)
  moreover have "set (names (p4 @ p5 @ p6)) \<subseteq> {''visual_aid_ready'', ''audio_hint_ready''}"
    using p4(2) p5(2) p6(2) by (auto simp: names_append)
  ultimately show ?thesis by blast
qed

lemma assist_stages_keeps:
  assumes "assist_stages oc sock tr an s = (r, s')"
  shows "processingQueue s' = processingQueue s"
    and "conversationContexts s' = conversationContexts s"
  using session_update_stage_keeps[OF assms[unfolded assist_stages_def]]
  by (simp_all add: visual_aid_stage_keeps audio_hint_stage_keeps)

lemma analysis_stage_lookup_fails:
  "user_lookup_fault oc = Some msg \<Longrightarrow>
   analysis_stage oc sock u tr s = (Some msg, call UserLookup s)"
  by (simp add: analysis_stage_def)

lemma analysis_stage_gpt_fails:
  "user_lookup_fault oc = None \<Longrightarrow> gpt oc = Inl msg \<Longrightarrow>
   analysis_stage oc sock u tr s
     = (Some (''AI processing failed: '' @ msg), call GPT (call UserLookup s))"
  by (simp add: analysis_stage_def processMultimodalInput_def)

lemma analysis_stage_ok:
  "user_lookup_fault oc = None \<Longrightarrow> gpt oc = Inr a \<Longrightarrow>
   analysis_stage oc sock u tr s
     = assist_stages oc sock tr (formatAnalysisResponse a)
         (emit sock
            (predictions_ready (predictions (formatAnalysisResponse a))
               (confidence (formatAnalysisResponse a))
               (intendedMeaning (formatAnalysisResponse a))
               (assistanceLevel (formatAnalysisResponse a))
               (emotionalContext (formatAnalysisResponse a)))
            ((call GPT (call UserLookup s))\<lparr>conversationContexts :=
               updateConversationContext u
                 \<lparr>ce_transcription = tr_text tr, ce_analysis = a,
                  ce_timestamp = at_analysis oc\<rparr>
                 (conversationContexts s)\<rparr>))"
  by (simp add: analysis_stage_def processMultimodalInput_def Let_def call_fields)

lemma analysis_stage_adds:
  assumes "analysis_stage oc sock u tr s = (r, s')"
  shows "\<exists>pre. trace s' = trace s @ pre \<and> set (names pre) \<subseteq> stage_names"
proof (cases "user_lookup_fault oc")
  case (Some msg)
  from assms[unfolded analysis_stage_lookup_fails[OF Some]]
  have "trace s' = trace s @ [Call UserLookup]" by (auto simp: call_fields)
  moreover have "set (names [Call UserLookup]) \<subseteq> stage_names" by (simp add: names_simps)
  ultimately show ?thesis by blast
next
  case None
  show ?thesis
  proof (cases "gpt oc")
    case (Inl msg)
    from assms[unfolded analysis_stage_gpt_fails[OF None Inl]]
    have "trace s' = trace s @ [Call UserLookup, Call GPT]" by (auto simp: call_fields)
    moreover have "set (names [Call UserLookup, Call GPT]) \<subseteq> stage_names"
      by (simp add: names_simps)
    ultimately show ?thesis by blast
  next
    case (Inr a)
    let ?e = "predictions_ready (predictions (formatAnalysisResponse a))
               (confidence (formatAnalysisResponse a))
               (intendedMeaning (formatAnalysisResponse a))
               (assistanceLevel (formatAnalysisResponse a))
               (emotionalContext (formatAnalysisResponse a))"
    let ?s3 = "emit sock ?e
            ((call GPT (call UserLookup s))\<lparr>conversationContexts :=
               updateConversationContext u
                 \<lparr>ce_transcription = tr_text tr, ce_analysis = a,
                  ce_timestamp = at_analysis oc\<rparr>
                 (conversationContexts s)\<rparr>)"
    have fin: "assist_stages oc sock tr (formatAnalysisResponse a) ?s3 = (r, s')"
      using assms unfolding analysis_stage_ok[OF None Inr] .
    have t3: "trace ?s3 = trace s @ [Call UserLookup, Call GPT, Emit (sock_id sock) ?e]"
      by (simp add: emit_fields call_fields)
    obtain p where p: "trace s' = trace ?s3 @ p"
      "set (names p) \<subseteq> {''visual_aid_ready'', ''audio_hint_ready''}"
      using assist_stages_adds[OF fin] by blast
    have "trace s' = trace s @ ([Call UserLookup, Call GPT, Emit (sock_id sock) ?e] @ p)"
      unfolding p(1) t3 by simp
    moreover have "set (names ([Call UserLookup, Call GPT, Emit (sock_id sock) ?e] @ p))
        \<subseteq> stage_names"
      using p(2) by (simp add: names_append names_simps stage_names_mem stage_names_sub)
    ultimately show ?thesis by blast
  qed
qed

lemma analysis_stage_keeps:
  assumes "analysis_stage oc sock u tr s = (r, s')"
  shows "processingQueue s' = processingQueue s"
proof (cases "user_lookup_fault oc")
  case (Some msg)
  from assms[unfolded analysis_stage_lookup_fails[OF Some]]
  show ?thesis by (auto simp: call_fields)
next
  case None
  show ?thesis
  proof (cases "gpt oc")
    case (Inl msg)
    from assms[unfolded analysis_stage_gpt_fails[OF None Inl]]
    show ?thesis by (auto simp: call_fields)
  next
    case (Inr a)
    from assist_stages_keeps(1)[OF assms[unfolded analysis_stage_ok[OF None Inr]]]
    show ?thesis by (simp add: emit_fields call_fields)
  qed
qed

lemma try_block_whisper_fails:
  "whisper oc = Inl msg \<Longrightarrow>
   try_block oc sock u data s
     = (Some (''Speech transcription failed: '' @ msg),
        call Whisper (emit sock (processing_started (timestamp data)) s))"
  by (simp add: try_block_def transcribeAudio_def)

lemma try_block_ok:
  "whisper oc = Inr w \<Longrightarrow>
   try_block oc sock u data s
     = analysis_stage oc sock u
         \<lparr>tr_text = wr_text w, tr_words = wr_words w, tr_language = wr_language w,
          tr_duration = wr_duration w,
          tr_confidence = calculateTranscriptionConfidence (wr_words w)\<rparr>
         (emit sock
            (transcription_ready (wr_text w) (calculateTranscriptionConfidence (wr_words w)))
            (call Whisper (emit sock (processing_started (timestamp data)) s)))"
  by (simp add: try_block_def transcribeAudio_def)

lemma try_block_adds:
  assumes "try_block oc sock u data s = (r, s')"
  shows "\<exists>pre. trace s' = trace s @ pre \<and> set (names pre) \<subseteq> stage_names"
proof (cases "whisper oc")
  case (Inl msg)
  from assms[unfolded try_block_whisper_fails[OF Inl]]
  have "trace s' = trace s @ [Emit (sock_id sock) (processing_started (timestamp data)),
      Call Whisper]" by (auto simp: call_fields emit_fields)
  moreover have "set (names [Emit (sock_id sock) (processing_started (timestamp data)),
      Call Whisper]) \<subseteq> stage_names" by (simp add: names_simps stage_names_mem)
  ultimately show ?thesis by blast
next
  case (Inr w)
  let ?e = "transcription_ready (wr_text w) (calculateTranscriptionConfidence (wr_words w))"
  let ?s2 = "emit sock ?e (call Whisper (emit sock (processing_started (timestamp data)) s))"
  obtain p where p: "trace s' = trace ?s2 @ p" "set (names p) \<subseteq> stage_names"
    using analysis_stage_adds[OF assms[unfolded try_block_ok[OF Inr]]] by blast
  have "trace s' = trace s @ ([Emit (sock_id sock) (processing_started (timestamp data)),
      Call Whisper, Emit (sock_id sock) ?e] @ p)"
    unfolding p(1) by (simp add: emit_fields call_fields)
  moreover have "set (names ([Emit (sock_id sock) (processing_started (timestamp data)),
      Call Whisper, Emit (sock_id sock) ?e] @ p)) \<subseteq> stage_names"
    using p(2) by (simp add: names_append names_simps stage_names_mem)
  ultimately show ?thesis by blast
qed

lemma try_block_keeps:
  assumes "try_block oc sock u data s = (r, s')"
  shows "processingQueue s' = processingQueue s"
proof (cases "whisper oc")
  case (Inl msg)
  from assms[unfolded try_block_whisper_fails[OF Inl]]
  show ?thesis by (auto simp: call_fields emit_fields)
next
  case (Inr w)
  from analysis_stage_keeps[OF assms[unfolded try_block_ok[OF Inr]]]
  show ?thesis by (simp add: emit_fields call_fields)
qed


lemma new_actionsI: "trace s' = trace s @ xs \<Longrightarrow> new_actions s s' = xs"
  by (simp add: new_actions_def)

lemma try_block_starts:
  assumes "try_block oc sock u data s = (r, s')"
  shows "\<exists>rest. trace s' = trace s @ Emit (sock_id sock) (processing_started (timestamp data)) # rest"
proof (cases "whisper oc")
  case (Inl msg)
  from assms[unfolded try_block_whisper_fails[OF Inl]]
  show ?thesis by (auto simp: call_fields emit_fields)
next
  case (Inr w)
  from analysis_stage_adds[OF assms[unfolded try_block_ok[OF Inr]]]
  show ?thesis by (auto simp: call_fields emit_fields)
qed

lemma processSpeechInput_busy:
  "busy u s \<Longrightarrow> processSpeechInput oc sock u data s = (None, emit sock processing_busy s)"
  by (simp add: processSpeechInput_def)

lemma processSpeechInput_accepted:
  assumes "\<not> busy u s" and "try_block oc sock u data (mark_processing u s) = (r, s')"
  shows "processSpeechInput oc sock u data s = (r, finally_block sock u (at_complete oc) s')"
  using assms by (simp add: processSpeechInput_def)

lemma finally_block_fields:
  "trace (finally_block sock u t s) = trace s @ [Emit (sock_id sock) (processing_complete t)]"
  "processingQueue (finally_block sock u t s) = (processingQueue s)(u := None)"
  "conversationContexts (finally_block sock u t s) = conversationContexts s"
  "db_sessions (finally_block sock u t s) = db_sessions s"
  by (simp_all add: finally_block_def emit_fields)

lemma mark_processing_fields:
  "trace (mark_processing u s) = trace s"
  "processingQueue (mark_processing u s) = (processingQueue s)(u \<mapsto> True)"
  "conversationContexts (mark_processing u s) = conversationContexts s"
  "db_sessions (mark_processing u s) = db_sessions s"
  by (simp_all add: mark_processing_def)

lemma not_busy_finally: "\<not> busy u (finally_block sock u t s)"
  by (simp add: busy_def finally_block_fields)

text \<open>The handler on an accepted turn, in terms of what the \<^verbatim>\<open>try\<close> block did.\<close>

lemma on_process_speech_accepted:
  assumes "sock_userId sock = Some u" and "\<not> busy u s"
    and "try_block oc sock u data (mark_processing u s) = (r, s')"
  shows "on_process_speech oc sock data s =
           (case r of
              None \<Rightarrow> finally_block sock u (at_complete oc) s'
            | Some msg \<Rightarrow>
                emit sock (processing_error msg) (finally_block sock u (at_complete oc) s'))"
  using assms
  by (simp add: on_process_speech_def processSpeechInput_def split: option.splits)

lemmas turn_eval =
  on_process_speech_def processSpeechInput_def busy_def try_block_def transcribeAudio_def
  analysis_stage_def processMultimodalInput_def assist_stages_def session_update_stage_def
  updateSessionData_def visual_aid_stage_def audio_hint_stage_def finally_block_def
  mark_processing_def emit_fields call_fields formatAnalysisResponse_def or_else_def
  truthy_def generateVisualAid_def Let_def

lemma sockA_accepted:
  "sock_userId sockA = Some ''alice''" "\<not> busy ''alice'' init_server"
  by (simp_all add: sockA_def busy_def init_server_def)

subsection \<open>Completion and failure of a turn\<close>

text \<open>
  Claim C2. For every turn that is accepted (the socket is authenticated as \<open>u\<close> and
  the flag of \<open>u\<close> is not set), whatever the outcomes of the remote calls: the log of
  the handler is the old log, then events none of which is \<^verbatim>\<open>processing_complete\<close>,
  then \<^verbatim>\<open>processing_complete\<close> with the clock reading of the \<^verbatim>\<open>finally\<close>
  block, then events none of which is \<^verbatim>\<open>processing_complete\<close>; and the flag of
  \<open>u\<close> is not set afterwards.
\<close>

theorem C2_completion_always:
  assumes "sock_userId sock = Some u" and "\<not> busy u srv0"
  shows "\<not> busy u (on_process_speech oc sock data srv0)
    \<and> (\<exists>pre post.
          trace (on_process_speech oc sock data srv0)
            = trace srv0 @ pre
                @ [Emit (sock_id sock) (processing_complete (at_complete oc))] @ post
          \<and> ''processing_complete'' \<notin> set (names pre)
          \<and> ''processing_complete'' \<notin> set (names post))"
proof -
  obtain r s' where tb: "try_block oc sock u data (mark_processing u srv0) = (r, s')"
    by (cases "try_block oc sock u data (mark_processing u srv0)")
  obtain pre where pre: "trace s' = trace srv0 @ pre" "set (names pre) \<subseteq> stage_names"
    using try_block_adds[OF tb] by (auto simp: mark_processing_fields)
  have npre: "''processing_complete'' \<notin> set (names pre)"
    using pre(2) stage_names_mem(6) by blast
  note h = on_process_speech_accepted[OF assms tb]
  show ?thesis
  proof (cases r)
    case None
    have "trace (on_process_speech oc sock data srv0)
            = trace srv0 @ pre
                @ [Emit (sock_id sock) (processing_complete (at_complete oc))] @ []"
      by (simp add: h None finally_block_fields pre)
    moreover have "\<not> busy u (on_process_speech oc sock data srv0)"
      by (simp add: h None not_busy_finally)
    moreover have "''processing_complete'' \<notin> set (names [])" by (simp add: names_simps)
    ultimately show ?thesis using npre by blast
  next
    case (Some msg)
    have "trace (on_process_speech oc sock data srv0)
            = trace srv0 @ pre
                @ [Emit (sock_id sock) (processing_complete (at_complete oc))]
                @ [Emit (sock_id sock) (processing_error msg)]"
      by (simp add: h Some finally_block_fields emit_fields pre)
    moreover have "\<not> busy u (on_process_speech oc sock data srv0)"
      by (simp add: h Some busy_emit not_busy_finally)
    moreover have "''processing_complete'' \<notin> set (names [Emit (sock_id sock) (processing_error msg)])"
      by (simp add: names_simps)
    ultimately show ?thesis using npre by blast
  qed
qed

theorem C2_witness:
  "sock_userId sockA = Some ''alice'' \<and> \<not> busy ''alice'' init_server
   \<and> \<not> busy ''alice''
         (on_process_speech (oc1\<lparr>gpt := Inl ''rate limit''\<rparr>) sockA data0 init_server)
   \<and> names (trace
         (on_process_speech (oc1\<lparr>gpt := Inl ''rate limit''\<rparr>) sockA data0 init_server))
       = [''processing_started'', ''transcription_ready'', ''processing_complete'',
          ''processing_error'']"
proof -
  from C2_completion_always[OF sockA_accepted, of "oc1\<lparr>gpt := Inl ''rate limit''\<rparr>" data0]
  have "\<not> busy ''alice''
         (on_process_speech (oc1\<lparr>gpt := Inl ''rate limit''\<rparr>) sockA data0 init_server)"
    by (rule conjunct1)
  moreover have "names (trace
         (on_process_speech (oc1\<lparr>gpt := Inl ''rate limit''\<rparr>) sockA data0 init_server))
       = [''processing_started'', ''transcription_ready'', ''processing_complete'',
          ''processing_error'']"
    by (simp add: turn_eval names_def sockA_def oc1_def init_server_def)
  ultimately show ?thesis using sockA_accepted by blast
qed

text \<open>
  Claim C3. For every accepted turn whose transcription fails with message \<open>msg\<close>, the
  handler adds to the log exactly: \<^verbatim>\<open>processing_started\<close>, the call to Whisper,
  \<^verbatim>\<open>processing_complete\<close> and \<^verbatim>\<open>processing_error\<close>; so none of
  \<^verbatim>\<open>transcription_ready\<close>, \<^verbatim>\<open>predictions_ready\<close>, \<^verbatim>\<open>visual_aid_ready\<close>
  and \<^verbatim>\<open>audio_hint_ready\<close> is emitted. The conversation contexts are unchanged and
  the flag of the user is not set afterwards.
\<close>

theorem C3_transcription_failure:
  assumes "sock_userId sock = Some u" and "\<not> busy u srv0" and "whisper oc = Inl msg"
  shows "new_actions srv0 (on_process_speech oc sock data srv0)
           = [Emit (sock_id sock) (processing_started (timestamp data)),
              Call Whisper,
              Emit (sock_id sock) (processing_complete (at_complete oc)),
              Emit (sock_id sock) (processing_error (''Speech transcription failed: '' @ msg))]
    \<and> names (new_actions srv0 (on_process_speech oc sock data srv0))
           = [''processing_started'', ''processing_complete'', ''processing_error'']
    \<and> conversationContexts (on_process_speech oc sock data srv0) = conversationContexts srv0
    \<and> \<not> busy u (on_process_speech oc sock data srv0)"
proof -
  note tb = try_block_whisper_fails[OF assms(3), of sock u data "mark_processing u srv0"]
  note h = on_process_speech_accepted[OF assms(1,2) tb]
  have t: "trace (on_process_speech oc sock data srv0)
           = trace srv0 @ [Emit (sock_id sock) (processing_started (timestamp data)),
              Call Whisper,
              Emit (sock_id sock) (processing_complete (at_complete oc)),
              Emit (sock_id sock) (processing_error (''Speech transcription failed: '' @ msg))]"
    by (simp add: h finally_block_fields emit_fields call_fields mark_processing_fields)
  have c: "conversationContexts (on_process_speech oc sock data srv0) = conversationContexts srv0"
    by (simp add: h finally_block_fields emit_fields call_fields mark_processing_fields)
  have b: "\<not> busy u (on_process_speech oc sock data srv0)"
    by (simp add: h busy_emit not_busy_finally)
  show ?thesis
    unfolding new_actionsI[OF t] using c b by (simp add: names_simps)
qed

theorem C3_witness:
  "whisper (oc1\<lparr>whisper := Inl ''timeout''\<rparr>) = Inl ''timeout''
   \<and> new_actions init_server
        (on_process_speech (oc1\<lparr>whisper := Inl ''timeout''\<rparr>) sockA data0 init_server)
       = [Emit 1 (processing_started 1000), Call Whisper, Emit 1 (processing_complete 2000),
          Emit 1 (processing_error ''Speech transcription failed: timeout'')]
   \<and> conversationContexts
        (on_process_speech (oc1\<lparr>whisper := Inl ''timeout''\<rparr>) sockA data0 init_server)
       = Map.empty
   \<and> \<not> busy ''alice''
        (on_process_speech (oc1\<lparr>whisper := Inl ''timeout''\<rparr>) sockA data0 init_server)"
proof -
  have h: "whisper (oc1\<lparr>whisper := Inl ''timeout''\<rparr>) = Inl ''timeout''" by simp
  from C3_transcription_failure[OF sockA_accepted h, of data0] h show ?thesis
    by (simp add: sockA_def data0_def oc1_def init_server_def)
qed

lemma on_turn_order_append: "on_turn_order (xs @ ys) = on_turn_order xs @ on_turn_order ys"
  by (simp add: on_turn_order_def)

lemma on_turn_order_none:
  assumes "set xs \<subseteq> {n}" and "n \<notin> set turn_order"
  shows "on_turn_order xs = []"
  unfolding on_turn_order_def filter_empty_conv using assms by blast

lemma not_in_turn_order:
  "''audio_hint_ready'' \<notin> set turn_order"
  "''processing_error'' \<notin> set turn_order"
  by (simp_all add: turn_order_def)

lemma on_turn_order_fixed:
  "on_turn_order (''processing_started'' # ''transcription_ready'' # ''predictions_ready''
       # ''visual_aid_ready'' # xs)
     = ''processing_started'' # ''transcription_ready'' # ''predictions_ready''
       # ''visual_aid_ready'' # on_turn_order xs"
  "on_turn_order (''processing_complete'' # xs) = ''processing_complete'' # on_turn_order xs"
  "on_turn_order [] = []"
  by (simp_all add: on_turn_order_def turn_order_def)

lemma visual_concept_truthy:
  "visualConcept (formatAnalysisResponse a) = Some c \<Longrightarrow> truthy (Some c)"
  by (auto simp: formatAnalysisResponse_def split: option.splits if_splits)

lemma visual_aid_stage_ok:
  "visualAidSuggested an \<Longrightarrow> visualConcept an = Some c \<Longrightarrow> truthy (Some c) \<Longrightarrow>
   dalle oc = Inr url \<Longrightarrow>
   visual_aid_stage oc sock an s = emit sock (visual_aid_ready url c) (call (DALLE c) s)"
  by (simp add: visual_aid_stage_def generateVisualAid_def)

lemma visual_aid_stage_fails:
  "visualAidSuggested an \<Longrightarrow> visualConcept an = Some c \<Longrightarrow> truthy (Some c) \<Longrightarrow>
   dalle oc = Inl msg \<Longrightarrow>
   visual_aid_stage oc sock an s = call (DALLE c) s"
  by (simp add: visual_aid_stage_def generateVisualAid_def)

text \<open>The tail of a turn after the visual aid: audio hint, session update, completion, error.\<close>

lemma turn_tail:
  assumes "sock_userId sock = Some u"
    and "session_update_stage oc sock tr an (audio_hint_stage sock an s) = (r, s')"
  shows "\<exists>rest post.
      trace (case r of
               None \<Rightarrow> finally_block sock u t s'
             | Some msg \<Rightarrow> emit sock (processing_error msg) (finally_block sock u t s'))
        = trace s @ rest @ [Emit (sock_id sock) (processing_complete t)] @ post
      \<and> set (names rest) \<subseteq> {''audio_hint_ready''}
      \<and> set (names post) \<subseteq> {''processing_error''}"
proof -
  obtain p5 where p5: "trace (audio_hint_stage sock an s) = trace s @ p5"
      "set (names p5) \<subseteq> {''audio_hint_ready''}"
    using audio_hint_stage_adds by blast
  obtain p6 where p6: "trace s' = trace (audio_hint_stage sock an s) @ p6" "names p6 = []"
    using session_update_stage_adds[OF assms(2)] by blast
  have rest: "set (names (p5 @ p6)) \<subseteq> {''audio_hint_ready''}"
    using p5(2) p6(2) by (simp add: names_append)
  show ?thesis
  proof (cases r)
    case None
    have "trace (case r of
               None \<Rightarrow> finally_block sock u t s'
             | Some msg \<Rightarrow> emit sock (processing_error msg) (finally_block sock u t s'))
        = trace s @ (p5 @ p6) @ [Emit (sock_id sock) (processing_complete t)] @ []"
      by (simp add: None finally_block_fields p5 p6)
    moreover have "set (names []) \<subseteq> {''processing_error''}" by (simp add: names_simps)
    ultimately show ?thesis using rest by blast
  next
    case (Some msg)
    have "trace (case r of
               None \<Rightarrow> finally_block sock u t s'
             | Some msg \<Rightarrow> emit sock (processing_error msg) (finally_block sock u t s'))
        = trace s @ (p5 @ p6) @ [Emit (sock_id sock) (processing_complete t)]
            @ [Emit (sock_id sock) (processing_error msg)]"
      by (simp add: Some finally_block_fields emit_fields p5 p6)
    moreover have "set (names [Emit (sock_id sock) (processing_error msg)])
        \<subseteq> {''processing_error''}" by (simp add: names_simps)
    ultimately show ?thesis using rest by blast
  qed
qed

text \<open>
  Claim C4. For every accepted turn in which the transcription, the user lookup and the
  analysis succeed and the analysis suggests a visual aid with a concept: if the image is
  generated, the handler adds to the log the started event, the Whisper call, the
  transcription event, the lookup and GPT calls, the predictions event, the DALL-E call
  and the visual aid event, each event directly after the call of its stage; then
  possibly an audio hint and the session update, then \<^verbatim>\<open>processing_complete\<close>, then
  possibly \<^verbatim>\<open>processing_error\<close>; so the five events of the order occur once each and
  in that order. If the image generation fails, \<^verbatim>\<open>visual_aid_ready\<close> is not emitted
  and \<^verbatim>\<open>predictions_ready\<close> and \<^verbatim>\<open>processing_complete\<close> are.
\<close>

theorem C4_event_order:
  assumes "sock_userId sock = Some u" and "\<not> busy u srv0"
    and "whisper oc = Inr w" and "user_lookup_fault oc = None" and "gpt oc = Inr a"
    and "an = formatAnalysisResponse a"
    and "visualAidSuggested an" and "visualConcept an = Some concept"
    and "new = new_actions srv0 (on_process_speech oc sock data srv0)"
    and "k = sock_id sock"
  shows "case dalle oc of
      Inr url \<Rightarrow>
        (\<exists>rest post.
           new = [Emit k (processing_started (timestamp data)),
                  Call Whisper,
                  Emit k (transcription_ready (wr_text w)
                            (calculateTranscriptionConfidence (wr_words w))),
                  Call UserLookup,
                  Call GPT,
                  Emit k (predictions_ready (predictions an) (confidence an)
                            (intendedMeaning an) (assistanceLevel an) (emotionalContext an)),
                  Call (DALLE concept),
                  Emit k (visual_aid_ready url concept)]
                 @ rest @ [Emit k (processing_complete (at_complete oc))] @ post
           \<and> set (names rest) \<subseteq> {''audio_hint_ready''}
           \<and> set (names post) \<subseteq> {''processing_error''})
        \<and> on_turn_order (names new) = turn_order
    | Inl msg \<Rightarrow>
        ''visual_aid_ready'' \<notin> set (names new)
        \<and> ''predictions_ready'' \<in> set (names new)
        \<and> ''processing_complete'' \<in> set (names new)"
proof -
  let ?tr = "\<lparr>tr_text = wr_text w, tr_words = wr_words w, tr_language = wr_language w,
          tr_duration = wr_duration w,
          tr_confidence = calculateTranscriptionConfidence (wr_words w)\<rparr>"
  let ?e2 = "transcription_ready (wr_text w) (calculateTranscriptionConfidence (wr_words w))"
  let ?e3 = "predictions_ready (predictions an) (confidence an)
                            (intendedMeaning an) (assistanceLevel an) (emotionalContext an)"
  let ?s2 = "emit sock ?e2
      (call Whisper (emit sock (processing_started (timestamp data)) (mark_processing u srv0)))"
  let ?s3 = "emit sock ?e3
            ((call GPT (call UserLookup ?s2))\<lparr>conversationContexts :=
               updateConversationContext u
                 \<lparr>ce_transcription = tr_text ?tr, ce_analysis = a,
                  ce_timestamp = at_analysis oc\<rparr>
                 (conversationContexts ?s2)\<rparr>)"
  have tb: "try_block oc sock u data (mark_processing u srv0) = assist_stages oc sock ?tr an ?s3"
    unfolding try_block_ok[OF assms(3)] analysis_stage_ok[OF assms(4,5)] assms(6) ..
  have t3: "trace ?s3 = trace srv0 @ [Emit k (processing_started (timestamp data)),
      Call Whisper, Emit k ?e2, Call UserLookup, Call GPT, Emit k ?e3]"
    by (simp add: emit_fields call_fields mark_processing_fields assms(10))
  have tc: "truthy (Some concept)"
    using assms(8) unfolding assms(6) by (rule visual_concept_truthy)
  obtain r s' where as: "assist_stages oc sock ?tr an ?s3 = (r, s')"
    by (cases "assist_stages oc sock ?tr an ?s3")
  note h = on_process_speech_accepted[OF assms(1,2) tb[unfolded as]]
  show ?thesis
  proof (cases "dalle oc")
    case (Inr url)
    note v = visual_aid_stage_ok[OF assms(7,8) tc Inr, of sock]
    from as have "session_update_stage oc sock ?tr an
        (audio_hint_stage sock an (emit sock (visual_aid_ready url concept)
           (call (DALLE concept) ?s3))) = (r, s')"
      by (simp only: assist_stages_def v)
    from turn_tail[OF assms(1) this, of "at_complete oc"]
    obtain rest post where rp:
      "trace (on_process_speech oc sock data srv0)
        = trace (emit sock (visual_aid_ready url concept) (call (DALLE concept) ?s3))
            @ rest @ [Emit (sock_id sock) (processing_complete (at_complete oc))] @ post"
      "set (names rest) \<subseteq> {''audio_hint_ready''}"
      "set (names post) \<subseteq> {''processing_error''}"
      unfolding h by blast
    have "trace (on_process_speech oc sock data srv0)
        = trace srv0 @ ([Emit k (processing_started (timestamp data)),
                  Call Whisper, Emit k ?e2, Call UserLookup, Call GPT, Emit k ?e3,
                  Call (DALLE concept), Emit k (visual_aid_ready url concept)]
                 @ rest @ [Emit k (processing_complete (at_complete oc))] @ post)"
      unfolding rp(1) by (simp add: emit_fields call_fields mark_processing_fields assms(10))
    from new_actionsI[OF this]
    have new: "new = [Emit k (processing_started (timestamp data)),
                  Call Whisper, Emit k ?e2, Call UserLookup, Call GPT, Emit k ?e3,
                  Call (DALLE concept), Emit k (visual_aid_ready url concept)]
                 @ rest @ [Emit k (processing_complete (at_complete oc))] @ post"
      unfolding assms(9) .
    have "on_turn_order (names new) = turn_order"
      unfolding new
      by (simp add: names_append names_simps on_turn_order_append on_turn_order_fixed
            on_turn_order_none[OF rp(2)] on_turn_order_none[OF rp(3)] not_in_turn_order
            turn_order_def)
    with new rp(2,3) Inr show ?thesis by auto
  next
    case (Inl msg)
    note v = visual_aid_stage_fails[OF assms(7,8) tc Inl, of sock]
    from as have "session_update_stage oc sock ?tr an
        (audio_hint_stage sock an (call (DALLE concept) ?s3)) = (r, s')"
      by (simp only: assist_stages_def v)
    from turn_tail[OF assms(1) this, of "at_complete oc"]
    obtain rest post where rp:
      "trace (on_process_speech oc sock data srv0)
        = trace (call (DALLE concept) ?s3)
            @ rest @ [Emit (sock_id sock) (processing_complete (at_complete oc))] @ post"
      "set (names rest) \<subseteq> {''audio_hint_ready''}"
      "set (names post) \<subseteq> {''processing_error''}"
      unfolding h by blast
    have "trace (on_process_speech oc sock data srv0)
        = trace srv0 @ ([Emit k (processing_started (timestamp data)),
                  Call Whisper, Emit k ?e2, Call UserLookup, Call GPT, Emit k ?e3,
                  Call (DALLE concept)]
                 @ rest @ [Emit k (processing_complete (at_complete oc))] @ post)"
      unfolding rp(1) by (simp add: emit_fields call_fields mark_processing_fields assms(10))
    from new_actionsI[OF this]
    have new: "names new = [''processing_started'', ''transcription_ready'',
        ''predictions_ready''] @ names rest @ [''processing_complete''] @ names post"
      unfolding assms(9) by (simp add: names_append names_simps)
    have "''visual_aid_ready'' \<notin> set (names rest)" using rp(2) by auto
    moreover have "''visual_aid_ready'' \<notin> set (names post)" using rp(3) by auto
    ultimately show ?thesis using Inl unfolding new by simp
  qed
qed

theorem C4_witness:
  "whisper oc1 = Inr w1 \<and> gpt oc1 = Inr a1
   \<and> visualAidSuggested (formatAnalysisResponse a1)
   \<and> visualConcept (formatAnalysisResponse a1) = Some ''park''
   \<and> on_turn_order (names (new_actions init_server
         (on_process_speech oc1 sockA data0 init_server))) = turn_order
   \<and> names (new_actions init_server (on_process_speech oc1 sockA data0 init_server))
       = [''processing_started'', ''transcription_ready'', ''predictions_ready'',
          ''visual_aid_ready'', ''processing_complete'']
   \<and> ''visual_aid_ready'' \<notin> set (names (new_actions init_server
         (on_process_speech (oc1\<lparr>dalle := Inl ''quota''\<rparr>) sockA data0 init_server)))
   \<and> names (new_actions init_server
         (on_process_speech (oc1\<lparr>dalle := Inl ''quota''\<rparr>) sockA data0 init_server))
       = [''processing_started'', ''transcription_ready'', ''predictions_ready'',
          ''processing_complete'']"
proof -
  have h3: "whisper oc1 = Inr w1" and h4: "user_lookup_fault oc1 = None"
    and h5: "gpt oc1 = Inr a1" and d: "dalle oc1 = Inr ''https://img.example/park.png''"
    by (simp_all add: oc1_def)
  have h7: "visualAidSuggested (formatAnalysisResponse a1)"
    and h8: "visualConcept (formatAnalysisResponse a1) = Some ''park''"
    by (simp_all add: formatAnalysisResponse_def a1_def truthy_def)
  from C4_event_order[OF sockA_accepted h3 h4 h5 refl h7 h8 refl refl, of data0]
  have a: "on_turn_order (names (new_actions init_server
         (on_process_speech oc1 sockA data0 init_server))) = turn_order"
    unfolding d by simp
  have g3: "whisper (oc1\<lparr>dalle := Inl ''quota''\<rparr>) = Inr w1"
    and g4: "user_lookup_fault (oc1\<lparr>dalle := Inl ''quota''\<rparr>) = None"
    and g5: "gpt (oc1\<lparr>dalle := Inl ''quota''\<rparr>) = Inr a1"
    by (simp_all add: oc1_def)
  from C4_event_order[OF sockA_accepted g3 g4 g5 refl h7 h8 refl refl, of data0]
  have b: "''visual_aid_ready'' \<notin> set (names (new_actions init_server
         (on_process_speech (oc1\<lparr>dalle := Inl ''quota''\<rparr>) sockA data0 init_server)))"
    by simp
  have c: "names (new_actions init_server (on_process_speech oc1 sockA data0 init_server))
       = [''processing_started'', ''transcription_ready'', ''predictions_ready'',
          ''visual_aid_ready'', ''processing_complete'']"
    by (simp add: new_actions_def turn_eval names_def sockA_def oc1_def a1_def init_server_def)
  have e: "names (new_actions init_server
         (on_process_speech (oc1\<lparr>dalle := Inl ''quota''\<rparr>) sockA data0 init_server))
       = [''processing_started'', ''transcription_ready'', ''predictions_ready'',
          ''processing_complete'']"
    by (simp add: new_actions_def turn_eval names_def sockA_def oc1_def a1_def init_server_def)
  from h3 h5 h7 h8 a b c e show ?thesis by blast
qed

text \<open>
  Claim C10. For every accepted turn out of which an exception comes (a stage threw):
  the handler emits \<^verbatim>\<open>processing_error\<close> on the state that
  \<^verbatim>\<open>processSpeechInput\<close> left, in which the flag of the user is already cleared; what
  the handler added to the log ends with \<^verbatim>\<open>processing_complete\<close> followed by
  \<^verbatim>\<open>processing_error\<close>, and neither occurs before; and a turn of the same user
  submitted on the state in which \<^verbatim>\<open>processing_error\<close> has not yet been emitted is
  accepted: its first event is \<^verbatim>\<open>processing_started\<close>.
\<close>

theorem C10_complete_before_error:
  assumes "sock_userId sock = Some u" and "\<not> busy u srv0"
    and "processSpeechInput oc sock u data srv0 = (Some msg, srv1)"
  shows "on_process_speech oc sock data srv0 = emit sock (processing_error msg) srv1
    \<and> \<not> busy u srv1
    \<and> (\<exists>pre. new_actions srv0 (on_process_speech oc sock data srv0)
                 = pre @ [Emit (sock_id sock) (processing_complete (at_complete oc)),
                          Emit (sock_id sock) (processing_error msg)]
            \<and> ''processing_complete'' \<notin> set (names pre)
            \<and> ''processing_error'' \<notin> set (names pre))
    \<and> (\<exists>rest. new_actions srv1 (snd (processSpeechInput oc' sock' u data' srv1))
                 = Emit (sock_id sock') (processing_started (timestamp data')) # rest)"
proof -
  obtain r s' where tb: "try_block oc sock u data (mark_processing u srv0) = (r, s')"
    by (cases "try_block oc sock u data (mark_processing u srv0)")
  from assms(3) processSpeechInput_accepted[OF assms(2) tb]
  have r: "r = Some msg" and s1: "srv1 = finally_block sock u (at_complete oc) s'"
    by simp_all
  have h: "on_process_speech oc sock data srv0 = emit sock (processing_error msg) srv1"
    using assms(1,3) by (simp add: on_process_speech_def)
  have nb: "\<not> busy u srv1" unfolding s1 by (rule not_busy_finally)
  obtain pre where pre: "trace s' = trace srv0 @ pre" "set (names pre) \<subseteq> stage_names"
    using try_block_adds[OF tb] by (auto simp: mark_processing_fields)
  have t: "trace (on_process_speech oc sock data srv0)
      = trace srv0 @ (pre @ [Emit (sock_id sock) (processing_complete (at_complete oc)),
                        Emit (sock_id sock) (processing_error msg)])"
    by (simp add: h s1 emit_fields finally_block_fields pre)
  have n1: "''processing_complete'' \<notin> set (names pre)"
    using pre(2) stage_names_mem(6) by blast
  have n2: "''processing_error'' \<notin> set (names pre)"
    using pre(2) stage_names_mem(7) by blast
  obtain r2 s2 where tb2: "try_block oc' sock' u data' (mark_processing u srv1) = (r2, s2)"
    by (cases "try_block oc' sock' u data' (mark_processing u srv1)")
  obtain rest where rest: "trace s2 = trace srv1
      @ Emit (sock_id sock') (processing_started (timestamp data')) # rest"
    using try_block_starts[OF tb2] by (auto simp: mark_processing_fields)
  have "trace (snd (processSpeechInput oc' sock' u data' srv1))
      = trace srv1 @ (Emit (sock_id sock') (processing_started (timestamp data'))
          # rest @ [Emit (sock_id sock') (processing_complete (at_complete oc'))])"
    by (simp add: processSpeechInput_accepted[OF nb tb2] finally_block_fields rest)
  from new_actionsI[OF this] new_actionsI[OF t] h nb n1 n2 show ?thesis by blast
qed


theorem C10_witness:
  "fst (processSpeechInput (oc1\<lparr>gpt := Inl ''rate limit''\<rparr>) sockA ''alice'' data0 init_server)
     = Some ''AI processing failed: rate limit''
   \<and> \<not> busy ''alice''
        (snd (processSpeechInput (oc1\<lparr>gpt := Inl ''rate limit''\<rparr>) sockA ''alice'' data0
                init_server))
   \<and> on_process_speech (oc1\<lparr>gpt := Inl ''rate limit''\<rparr>) sockA data0 init_server
       = emit sockA (processing_error ''AI processing failed: rate limit'')
           (snd (processSpeechInput (oc1\<lparr>gpt := Inl ''rate limit''\<rparr>) sockA ''alice'' data0
                   init_server))"
proof -
  have f: "fst (processSpeechInput (oc1\<lparr>gpt := Inl ''rate limit''\<rparr>) sockA ''alice'' data0
                  init_server) = Some ''AI processing failed: rate limit''"
    by (simp add: turn_eval sockA_def oc1_def init_server_def)
  then have h3: "processSpeechInput (oc1\<lparr>gpt := Inl ''rate limit''\<rparr>) sockA ''alice'' data0
                  init_server
      = (Some ''AI processing failed: rate limit'',
         snd (processSpeechInput (oc1\<lparr>gpt := Inl ''rate limit''\<rparr>) sockA ''alice'' data0
                init_server))"
    by (simp add: prod_eq_iff)
  from C10_complete_before_error[OF sockA_accepted h3] f show ?thesis by blast
qed

subsection \<open>Single flight\<close>

lemma busy_other:
  "processingQueue s' u = processingQueue s u \<Longrightarrow> busy u s' = busy u s"
  by (simp add: busy_def)

lemma dispatch_step_single_flight:
  assumes "single_flight u d" and "if disconnects u e then inflight d u = 0 else True"
  shows "single_flight u (dispatch_step d e)"
proof (cases e)
  case (SubmitTurn sock data)
  show ?thesis
  proof (cases "sock_userId sock")
    case None
    with assms(1) SubmitTurn show ?thesis
      by (simp add: single_flight_def busy_emit)
  next
    case (Some v)
    show ?thesis
    proof (cases "busy v (srv d)")
      case True
      with assms(1) SubmitTurn Some show ?thesis
        by (simp add: single_flight_def busy_emit)
    next
      case False
      show ?thesis
      proof (cases "v = u")
        case True
        with False assms(1) SubmitTurn Some show ?thesis
          by (simp add: single_flight_def busy_def emit_fields mark_processing_fields)
      next
        case neq: False
        with False assms(1) SubmitTurn Some show ?thesis
          by (simp add: single_flight_def busy_def emit_fields mark_processing_fields)
      qed
    qed
  qed
next
  case (Settle sock t)
  show ?thesis
  proof (cases "sock_userId sock")
    case None
    with assms(1) Settle show ?thesis by simp
  next
    case (Some v)
    with assms(1) Settle show ?thesis
      by (cases "v = u") (auto simp: single_flight_def busy_def finally_block_fields)
  qed
next
  case (Disconnect sock)
  show ?thesis
  proof (cases "sock_userId sock")
    case None
    with assms(1) Disconnect show ?thesis
      by (simp add: single_flight_def handleDisconnection_def)
  next
    case (Some v)
    with assms Disconnect show ?thesis
      by (cases "v = u") (auto simp: single_flight_def busy_def handleDisconnection_def)
  qed
qed

lemma dispatch_run_single_flight:
  "single_flight u d \<Longrightarrow> no_disconnect_in_flight u d evs \<Longrightarrow>
   single_flight u (dispatch_run d evs)"
proof (induction evs arbitrary: d)
  case Nil
  then show ?case by (simp add: dispatch_run_def)
next
  case (Cons e es)
  from Cons.prems have "single_flight u (dispatch_step d e)"
    by (auto intro: dispatch_step_single_flight)
  with Cons show ?case by (simp add: dispatch_run_def)
qed

lemma no_disconnect_in_flight_take:
  "no_disconnect_in_flight u d evs \<Longrightarrow> no_disconnect_in_flight u d (take n evs)"
proof (induction evs arbitrary: d n)
  case Nil
  then show ?case by simp
next
  case (Cons e es)
  then show ?case by (cases n) auto
qed

lemma single_flight_init: "single_flight u init_dispatcher"
  by (simp add: single_flight_def init_dispatcher_def init_server_def busy_def)

text \<open>
  Claim C1 says that at most one turn pipeline of a user executes at any time. The
  handler of a disconnection clears the flag of the user even while a turn of that user
  is in flight, so a turn submitted afterwards (from a new connection of the user) is
  accepted while the first is still running: two turns of alice are in flight.
\<close>

theorem C1_counterexample:
  "\<not> inflight (dispatch_run init_dispatcher
         [SubmitTurn sockA data0, Disconnect sockA, SubmitTurn sockB data0]) ''alice'' \<le> 1"
  by (simp add: dispatch_run_def init_dispatcher_def init_server_def sockA_def sockB_def
        busy_def emit_def mark_processing_def handleDisconnection_def)

text \<open>
  Claim C1, amended. Along every run of submissions, completions and disconnections in
  which no socket of user \<open>u\<close> disconnects while a turn of \<open>u\<close> is in flight, at every
  moment (after every prefix of the run) at most one turn of \<open>u\<close> is in flight, and the
  flag of \<open>u\<close> is set exactly when one is. A submission that finds the flag set emits
  \<^verbatim>\<open>processing_busy\<close> and changes nothing else: no turn starts, and
  \<^verbatim>\<open>processSpeechInput\<close> returns without running the \<^verbatim>\<open>try\<close> block. A submission
  that finds the flag clear sets it, and the \<^verbatim>\<open>try\<close> block runs on the state in
  which it is set.
\<close>

theorem C1_single_flight:
  assumes "no_disconnect_in_flight u init_dispatcher evs"
    and "d = dispatch_run init_dispatcher (take n evs)"
    and "sock_userId sock = Some u"
  shows "inflight d u \<le> 1
    \<and> (busy u (srv d) = (inflight d u = 1))
    \<and> (if busy u (srv d)
        then dispatch_step d (SubmitTurn sock data) = d\<lparr>srv := emit sock processing_busy (srv d)\<rparr>
           \<and> processSpeechInput oc sock u data (srv d) = (None, emit sock processing_busy (srv d))
        else inflight (dispatch_step d (SubmitTurn sock data)) u = 1
           \<and> busy u (srv (dispatch_step d (SubmitTurn sock data)))
           \<and> busy u (mark_processing u (srv d))
           \<and> processSpeechInput oc sock u data (srv d)
               = (fst (try_block oc sock u data (mark_processing u (srv d))),
                  finally_block sock u (at_complete oc)
                    (snd (try_block oc sock u data (mark_processing u (srv d))))))"
proof -
  have sf: "single_flight u d"
    unfolding assms(2)
    by (rule dispatch_run_single_flight[OF single_flight_init
          no_disconnect_in_flight_take[OF assms(1)]])
  show ?thesis
  proof (cases "busy u (srv d)")
    case True
    with sf assms(3) show ?thesis
      by (simp add: single_flight_def processSpeechInput_def)
  next
    case False
    with sf have z: "inflight d u = 0" by (auto simp: single_flight_def)
    from False z sf assms(3) show ?thesis
      by (simp add: single_flight_def processSpeechInput_def busy_def emit_fields
            mark_processing_fields split: prod.splits)
  qed
qed

theorem C1_witness:
  "no_disconnect_in_flight ''alice'' init_dispatcher
      [SubmitTurn sockA data0, SubmitTurn sockB data0, Settle sockA 2000, Disconnect sockA]
   \<and> inflight (dispatch_run init_dispatcher
         (take 2 [SubmitTurn sockA data0, SubmitTurn sockB data0, Settle sockA 2000,
                  Disconnect sockA])) ''alice'' = 1
   \<and> names (trace (srv (dispatch_run init_dispatcher
         (take 2 [SubmitTurn sockA data0, SubmitTurn sockB data0, Settle sockA 2000,
                  Disconnect sockA]))))
       = [''processing_started'', ''processing_busy'']"
  using C1_single_flight[of "''alice''"
      "[SubmitTurn sockA data0, SubmitTurn sockB data0, Settle sockA 2000, Disconnect sockA]"
      _ 2 sockB data0, OF _ refl]
  by (simp add: dispatch_run_def init_dispatcher_def init_server_def sockA_def sockB_def
        busy_def emit_def mark_processing_def finally_block_def names_def)

subsection \<open>Session ownership\<close>

lemma reauth_3_eval:
  "fst reauth_3 = \<lparr>sock_id = 1, sock_userId = Some ''mallory'', sock_sessionId = Some ''s1''\<rparr>"
  "db_sessions (snd reauth_3) = [''s1'' \<mapsto> new_session ''alice'' 100]"
  "processingQueue (snd reauth_3) = Map.empty"
  by (simp_all add: reauth_3_def reauth_2_def reauth_1_def on_authenticate_def
        on_start_session_def sock0_def init_server_def emit_def)

lemma updateSessionData_unchecked:
  "db sid = Some s \<Longrightarrow> session_store_fault oc = None \<Longrightarrow>
   updateSessionData oc sid tr an db
     = Inr (db(sid \<mapsto> s\<lparr>s_transcript := tr_text tr, s_predictions := predictions an,
                           s_confidence := Some (confidence an),
                           s_updatedAt := at_update oc\<rparr>))"
  by (simp add: updateSessionData_def)

lemma update_route_not_owner:
  "findFirst sid u db = None \<Longrightarrow>
   update_route None u sid body t db = (NotFound404 ''Session not found'', db)"
  by (simp add: update_route_def)

lemma update_route_applied_iff_owner:
  "(snd (update_route fault u sid body t db) \<noteq> db) \<Longrightarrow>
   (\<exists>s. db sid = Some s \<and> s_userId s = u) \<and> fst (update_route fault u sid body t db) = Success"
  by (auto simp: update_route_def findFirst_def split: option.splits if_splits)

lemma reauth_4_db:
  "db_sessions reauth_4 ''s1''
     = Some ((new_session ''alice'' 100)
               \<lparr>s_transcript := ''I went... park'', s_predictions := [''walk'', ''park''],
                s_confidence := Some (17 / 20), s_updatedAt := 1800\<rparr>)"
  unfolding reauth_4_def
  by (simp add: on_process_speech_def processSpeechInput_def busy_def try_block_def
        transcribeAudio_def analysis_stage_def processMultimodalInput_def assist_stages_def
        session_update_stage_def updateSessionData_def visual_aid_stage_def
        audio_hint_stage_def finally_block_def mark_processing_def
        reauth_3_eval emit_fields call_fields oc1_def w1_def a1_def formatAnalysisResponse_def
        or_else_def truthy_def generateVisualAid_def Let_def)

text \<open>
  Claim C7 says that a session update fails with NotFound and mutates nothing when the
  session does not belong to the requesting user, for the update route and for the
  per-turn update alike. The route checks (\<open>update_route_not_owner\<close>,
  \<open>update_route_applied_iff_owner\<close>); \<^verbatim>\<open>updateSessionData\<close> selects the row by id
  alone. A socket that authenticates as alice, starts session \<open>s1\<close>, then authenticates
  as mallory keeps \<^verbatim>\<open>socket.sessionId\<close>; the turn mallory submits overwrites the
  transcript of alice's session.
\<close>

theorem C7_turn_updates_foreign_session:
  "sock_userId (fst reauth_3) = Some ''mallory''
   \<and> sock_sessionId (fst reauth_3) = Some ''s1''
   \<and> map_option s_userId (db_sessions (snd reauth_3) ''s1'') = Some ''alice''
   \<and> map_option s_transcript (db_sessions (snd reauth_3) ''s1'') = Some []
   \<and> map_option s_userId (db_sessions reauth_4 ''s1'') = Some ''alice''
   \<and> map_option s_transcript (db_sessions reauth_4 ''s1'') = Some ''I went... park''
   \<and> findFirst ''s1'' ''mallory'' (db_sessions (snd reauth_3)) = None"
  by (simp add: reauth_3_eval reauth_4_db new_session_def findFirst_def)

subsection \<open>Ending a session\<close>

lemma endSession_no_artwork:
  "artwork_triggered (trace (snd (endSession pf sid t s))) = artwork_triggered (trace s)"
  by (simp add: endSession_def artwork_triggered_def Let_def call_fields
           split: option.splits)

lemma on_end_session_no_artwork:
  "artwork_triggered (trace (snd (on_end_session pf t sock s))) = artwork_triggered (trace s)"
proof -
  have "artwork_triggered (trace (snd (endSession pf (the (sock_sessionId sock)) t s)))
          = artwork_triggered (trace s)" by (rule endSession_no_artwork)
  then show ?thesis
    by (auto simp: on_end_session_def Let_def emit_fields artwork_triggered_def
             split: prod.splits option.splits)
qed

lemma end_route_artwork:
  assumes "findFirst sid u (db_sessions s) = Some existing"
    and "\<not> artwork_triggered (trace s)"
  shows "artwork_triggered (trace (snd (end_route art u sid sentences t s)))
           = (3 \<le> length (present_or sentences []))"
    and "fst (end_route art u sid sentences t s) = Success"
  using assms
  by (auto simp: end_route_def Let_def call_fields artwork_triggered_def split: sum.splits)

lemma ending_2_eval:
  "fst ending_1 = \<lparr>sock_id = 1, sock_userId = Some ''alice'', sock_sessionId = Some ''s1''\<rparr>"
  "db_sessions ending_2
     = [''s1'' \<mapsto> (new_session ''alice'' 0)\<lparr>s_completedSentences := three_sentences,
                                             s_updatedAt := 10\<rparr>]"
  "trace ending_2 = [Emit 1 (session_started ''s1'')]"
  by (simp_all add: ending_2_def ending_1_def on_start_session_def sockA_def init_server_def
        emit_def update_route_def findFirst_def new_session_def or_else_def present_or_def)

text \<open>
  Claim C8 says that every EndSession triggers the artwork generation exactly when the
  session has at least 3 completed sentences. The route does
  (\<open>end_route_artwork\<close>, whatever the outcome of the generation);
  \<^verbatim>\<open>SocketService.endSession\<close> never does (\<open>endSession_no_artwork\<close>): alice's session
  with three completed sentences, ended over the socket, ends without a request for
  artwork, while the route on the same state makes one.
\<close>

theorem C8_socket_end_skips_artwork:
  "map_option (length \<circ> s_completedSentences) (db_sessions ending_2 ''s1'') = Some 3
   \<and> sock_sessionId (fst ending_3) = None
   \<and> names (trace (snd ending_3)) = [''session_started'', ''session_ended'']
   \<and> map_option s_endedAt (db_sessions (snd ending_3) ''s1'') = Some (Some 5000)
   \<and> map_option (length \<circ> s_completedSentences) (db_sessions (snd ending_3) ''s1'') = Some 3
   \<and> \<not> artwork_triggered (trace (snd ending_3))
   \<and> artwork_triggered
        (trace (snd (end_route (Inr ()) ''alice'' ''s1'' (Some three_sentences) 5000 ending_2)))"
  by (simp add: ending_3_def on_end_session_def authenticated_def endSession_def Let_def
        ending_2_eval call_fields emit_fields names_def artwork_triggered_def
        three_sentences_def end_route_def findFirst_def new_session_def present_or_def)


end
